theory Spec2Isabelle
  imports Complex_Main
begin

section \<open>Key estimation by the Krumhansl-Schmuckler method (keyfinder.py)\<close>

text \<open>
  A shallow embedding of class \<open>Tonal_Fragment\<close> of \<open>src/keyfinder.py\<close>, from the
  aggregated chroma energies (\<open>self.chroma_vals\<close>, line 61) onwards. Loading the audio and
  computing the chromagram (librosa) lie outside; the twelve energies are the input.

  Numbers. The source computes in IEEE double precision. A float is here a real number or
  NaN: a finite double is a real number, infinities are left out, and the comparisons of
  doubles are exact. The operations that round come in two forms. The definitions
  \<open>corrcoef_10\<close>, \<open>py_round3\<close> and \<open>py_mul\<close> compute without rounding error, overflow or
  underflow, and \<open>init\<close> and \<open>get_key_with_context\<close> are the methods over them. The methods
  \<open>init_on\<close> and \<open>get_key_with_context_on\<close> take the three operations as a parameter, so
  that what is proved of them does not depend on how the doubles round. Every comparison
  with NaN is false except \<open>!=\<close>, which is true.
\<close>

subsection \<open>Floats and Python errors\<close>

datatype pyfloat = NaN | Fin real

datatype error = IndexError | KeyError | TypeError | ValueError

fun py_gt :: "pyfloat \<Rightarrow> pyfloat \<Rightarrow> bool" where
  "py_gt (Fin a) (Fin b) = (a > b)"
| "py_gt _ _ = False"

fun py_eq :: "pyfloat \<Rightarrow> pyfloat \<Rightarrow> bool" where
  "py_eq (Fin a) (Fin b) = (a = b)"
| "py_eq _ _ = False"

definition py_ne :: "pyfloat \<Rightarrow> pyfloat \<Rightarrow> bool" where
  "py_ne a b = (\<not> py_eq a b)"

definition py_ge :: "pyfloat \<Rightarrow> pyfloat \<Rightarrow> bool" where
  "py_ge a b = (py_gt a b \<or> py_eq a b)"

fun py_mul :: "pyfloat \<Rightarrow> pyfloat \<Rightarrow> pyfloat" where
  "py_mul (Fin a) (Fin b) = Fin (a * b)"
| "py_mul _ _ = NaN"

text \<open>Division without rounding error: \<open>0/0\<close> is NaN. A nonzero numerator over zero is an
  infinity in IEEE arithmetic, which \<open>np.clip\<close> turns into 1 or -1; without rounding error it
  does not arise in \<open>corrcoef_10\<close> below, where a zero standard deviation comes with a zero
  covariance (lemma \<open>np_cov_zero_variance\<close>), and it is NaN here.\<close>

fun py_div :: "pyfloat \<Rightarrow> pyfloat \<Rightarrow> pyfloat" where
  "py_div (Fin a) (Fin b) = (if b = 0 then NaN else Fin (a / b))"
| "py_div _ _ = NaN"

subsection \<open>The NumPy operations used by the source\<close>

text \<open>\<open>np.corrcoef(x, y)[1, 0]\<close>: the covariance matrix with divisor \<open>N - 1\<close>, each entry
  divided by the standard deviation of its row and then of its column, and clipped to
  \<open>[-1, 1]\<close>. Entry \<open>[1, 0]\<close> is the covariance of \<open>y\<close> with \<open>x\<close>, divided by the standard
  deviation of \<open>y\<close> and then by that of \<open>x\<close>.\<close>

definition mean :: "real list \<Rightarrow> real" where
  "mean xs = sum_list xs / real (length xs)"

definition np_cov :: "real list \<Rightarrow> real list \<Rightarrow> real" where
  "np_cov xs ys =
     sum_list (map2 (\<lambda>x y. (x - mean xs) * (y - mean ys)) xs ys) / (real (length xs) - 1)"

fun np_clip :: "pyfloat \<Rightarrow> real \<Rightarrow> real \<Rightarrow> pyfloat" where
  "np_clip NaN lo hi = NaN"
| "np_clip (Fin a) lo hi = Fin (min (max a lo) hi)"

definition corrcoef_10 :: "real list \<Rightarrow> real list \<Rightarrow> pyfloat" where
  "corrcoef_10 xs ys =
     (let c = np_cov ys xs;
          stddev_x = sqrt (np_cov xs xs);
          stddev_y = sqrt (np_cov ys ys)
      in np_clip (py_div (py_div (Fin c) (Fin stddev_y)) (Fin stddev_x)) (- 1) 1)"

text \<open>\<open>round(x, 3)\<close> on a NumPy double: scale by \<open>10^3\<close>, round to the nearest integer with
  ties going to the even one, scale back; NaN stays NaN.\<close>

definition rint :: "real \<Rightarrow> int" where
  "rint x =
     (let f = \<lfloor>x\<rfloor>; d = x - of_int f
      in if d < 1 / 2 then f else if 1 / 2 < d then f + 1 else if even f then f else f + 1)"

fun py_round3 :: "pyfloat \<Rightarrow> pyfloat" where
  "py_round3 NaN = NaN"
| "py_round3 (Fin a) = Fin (of_int (rint (a * 1000)) / 1000)"

subsection \<open>Dictionaries, in insertion order\<close>

text \<open>A Python \<open>dict\<close> iterates in insertion order; storing under a key already present
  replaces the value and keeps the position.\<close>

type_synonym ('k, 'v) dict = "('k \<times> 'v) list"

fun dict_set :: "('k, 'v) dict \<Rightarrow> 'k \<Rightarrow> 'v \<Rightarrow> ('k, 'v) dict" where
  "dict_set [] k v = [(k, v)]"
| "dict_set ((k', v') # d) k v =
     (if k' = k then (k', v) # d else (k', v') # dict_set d k v)"

text \<open>A dict comprehension \<open>{k: v for ...}\<close>, and \<open>{**a, **b}\<close>: the items are stored one
  after the other.\<close>

fun dict_update :: "('k, 'v) dict \<Rightarrow> ('k \<times> 'v) list \<Rightarrow> ('k, 'v) dict" where
  "dict_update d [] = d"
| "dict_update d ((k, v) # kvs) = dict_update (dict_set d k v) kvs"

definition dict_get :: "('k, 'v) dict \<Rightarrow> 'k \<Rightarrow> 'v option" where
  "dict_get d k = map_of d k"

definition dict_item :: "('k, 'v) dict \<Rightarrow> 'k \<Rightarrow> error + 'v" where
  "dict_item d k = (case map_of d k of None \<Rightarrow> Inl KeyError | Some v \<Rightarrow> Inr v)"

definition dict_contains :: "('k, 'v) dict \<Rightarrow> 'k \<Rightarrow> bool" where
  "dict_contains d k = (map_of d k \<noteq> None)"

definition dict_keys :: "('k, 'v) dict \<Rightarrow> 'k list" where
  "dict_keys d = map fst d"

subsection \<open>Built-in operations on strings and lists\<close>

text \<open>\<open>needle in hay\<close> on strings.\<close>

fun str_contains :: "string \<Rightarrow> string \<Rightarrow> bool" where
  "str_contains needle [] = (needle = [])"
| "str_contains needle (c # cs) =
     (take (length needle) (c # cs) = needle \<or> str_contains needle cs)"

text \<open>\<open>s.split()\<close>: the maximal runs of characters that are not white space. A character
  is a code point below 256.\<close>

definition is_space :: "char \<Rightarrow> bool" where
  "is_space c = (c \<in> set [CHR '' '', CHR 0x09, CHR 0x0A, CHR 0x0B, CHR 0x0C, CHR 0x0D,
                           CHR 0x1C, CHR 0x1D, CHR 0x1E, CHR 0x1F, CHR 0x85, CHR 0xA0])"

fun split_ws :: "string \<Rightarrow> string \<Rightarrow> string list" where
  "split_ws [] w = (if w = [] then [] else [w])"
| "split_ws (c # cs) w =
     (if is_space c then (if w = [] then split_ws cs [] else w # split_ws cs [])
      else split_ws cs (w @ [c]))"

definition py_split :: "string \<Rightarrow> string list" where
  "py_split s = split_ws s []"

text \<open>\<open>xs.index(x)\<close>.\<close>

fun list_index :: "'a list \<Rightarrow> 'a \<Rightarrow> error + nat" where
  "list_index [] x = Inl ValueError"
| "list_index (y # ys) x =
     (if y = x then Inr 0
      else case list_index ys x of Inl e \<Rightarrow> Inl e | Inr n \<Rightarrow> Inr (Suc n))"

text \<open>\<open>max(items, key=f)\<close>: the first item stays unless a later one has a key that
  compares greater; the empty sequence raises \<open>ValueError\<close>. The key function here is
  \<open>dict.get\<close>, whose \<open>None\<close> for a missing key cannot be compared with a float.\<close>

fun obj_gt :: "pyfloat option \<Rightarrow> pyfloat option \<Rightarrow> error + bool" where
  "obj_gt (Some a) (Some b) = Inr (py_gt a b)"
| "obj_gt _ _ = Inl TypeError"

fun max_loop :: "('a \<Rightarrow> pyfloat option) \<Rightarrow> 'a list \<Rightarrow> 'a \<Rightarrow> pyfloat option \<Rightarrow> error + 'a" where
  "max_loop f [] maxitem maxval = Inr maxitem"
| "max_loop f (item # items) maxitem maxval =
     (case obj_gt (f item) maxval of
        Inl e \<Rightarrow> Inl e
      | Inr True \<Rightarrow> max_loop f items item (f item)
      | Inr False \<Rightarrow> max_loop f items maxitem maxval)"

definition py_max :: "'a list \<Rightarrow> ('a \<Rightarrow> pyfloat option) \<Rightarrow> error + 'a" where
  "py_max items f =
     (case items of [] \<Rightarrow> Inl ValueError | item # rest \<Rightarrow> max_loop f rest item (f item))"

subsection \<open>Class constants\<close>

definition PITCHES :: "string list" where
  "PITCHES = [''C'', ''C#'', ''D'', ''D#'', ''E'', ''F'', ''F#'', ''G'', ''G#'', ''A'', ''A#'', ''B'']"

definition MAJ_PROFILE :: "real list" where
  "MAJ_PROFILE = [6.35, 2.23, 3.48, 2.33, 4.38, 4.09, 2.52, 5.19, 2.39, 3.66, 2.29, 2.88]"

definition MIN_PROFILE :: "real list" where
  "MIN_PROFILE = [6.33, 2.68, 3.52, 5.38, 2.60, 3.53, 2.54, 4.75, 3.98, 2.69, 3.34, 3.17]"

subsection \<open>The object and its methods\<close>

record tonal_fragment =
  chroma_vals :: "real list"
  keyfreqs :: "(string, real) dict"
  key_dict :: "(string, pyfloat) dict"
  key :: string
  bestcorr :: pyfloat
  altkey :: "string option"
  altbestcorr :: "pyfloat option"

text \<open>Line 83: the pitch energies read through \<open>keyfreqs.get\<close>, starting at pitch \<open>i\<close>.\<close>

definition key_test :: "(string, real) dict \<Rightarrow> nat \<Rightarrow> real option list" where
  "key_test kf i = map (\<lambda>m. dict_get kf (PITCHES ! ((i + m) mod 12))) [0..<12]"

text \<open>NumPy makes an array of doubles from the list; a \<open>None\<close> in it is a \<open>TypeError\<close>.\<close>

fun np_array :: "real option list \<Rightarrow> error + real list" where
  "np_array [] = Inr []"
| "np_array (None # xs) = Inl TypeError"
| "np_array (Some x # xs) = (case np_array xs of Inl e \<Rightarrow> Inl e | Inr ys \<Rightarrow> Inr (x # ys))"

text \<open>Lines 81 to 90: the loop over the twelve roots, appending to both lists.\<close>

fun corr_loop ::
  "(string, real) dict \<Rightarrow> nat list \<Rightarrow> pyfloat list \<Rightarrow> pyfloat list \<Rightarrow>
     error + (pyfloat list \<times> pyfloat list)" where
  "corr_loop kf [] maj_key_corrs min_key_corrs = Inr (maj_key_corrs, min_key_corrs)"
| "corr_loop kf (i # rest) maj_key_corrs min_key_corrs =
     (case np_array (key_test kf i) of
        Inl e \<Rightarrow> Inl e
      | Inr kt \<Rightarrow>
          (let maj_corr = py_round3 (corrcoef_10 MAJ_PROFILE kt);
               min_corr = py_round3 (corrcoef_10 MIN_PROFILE kt)
           in corr_loop kf rest (maj_key_corrs @ [maj_corr]) (min_key_corrs @ [min_corr])))"

definition key_names :: "string list" where
  "key_names = map (\<lambda>i. PITCHES ! i @ '' major'') [0..<12] @
               map (\<lambda>i. PITCHES ! i @ '' minor'') [0..<12]"

definition compute_key_correlations :: "(string, real) dict \<Rightarrow> error + (string, pyfloat) dict" where
  "compute_key_correlations kf =
     (case corr_loop kf [0..<12] [] [] of
        Inl e \<Rightarrow> Inl e
      | Inr (maj_key_corrs, min_key_corrs) \<Rightarrow>
          Inr (dict_update
                 (dict_update [] (map (\<lambda>i. (key_names ! i, maj_key_corrs ! i)) [0..<12]))
                 (map (\<lambda>i. (key_names ! (i + 12), min_key_corrs ! i)) [0..<12])))"

text \<open>Lines 101 to 107: the scan of the items, stopping at the first that qualifies.\<close>

fun alt_loop :: "(string \<times> pyfloat) list \<Rightarrow> tonal_fragment \<Rightarrow> tonal_fragment" where
  "alt_loop [] s = s"
| "alt_loop ((k, corr) # items) s =
     (if py_gt corr (py_mul (bestcorr s) (Fin 0.9)) \<and> py_ne corr (bestcorr s)
      then s\<lparr>altkey := Some k, altbestcorr := Some corr\<rparr>
      else alt_loop items s)"

definition find_alternative_key :: "tonal_fragment \<Rightarrow> tonal_fragment" where
  "find_alternative_key s = alt_loop (key_dict s) s"

text \<open>Line 62: the dict comprehension that builds \<open>self.keyfreqs\<close>.\<close>

definition keyfreqs_of :: "real list \<Rightarrow> (string, real) dict" where
  "keyfreqs_of cv = dict_update [] (map (\<lambda>i. (PITCHES ! i, cv ! i)) [0..<12])"

text \<open>Lines 61 to 74 of \<open>__init__\<close>. Reading \<open>chroma_vals[i]\<close> for \<open>i\<close> below 12 needs twelve
  entries.\<close>

definition init :: "real list \<Rightarrow> error + tonal_fragment" where
  "init cv =
     (if length cv < 12 then Inl IndexError
      else
        let kf = keyfreqs_of cv
        in case compute_key_correlations kf of
             Inl e \<Rightarrow> Inl e
           | Inr kd \<Rightarrow>
               (case py_max (dict_keys kd) (dict_get kd) of
                  Inl e \<Rightarrow> Inl e
                | Inr k \<Rightarrow>
                    (case dict_item kd k of
                       Inl e \<Rightarrow> Inl e
                     | Inr best \<Rightarrow>
                         Inr (find_alternative_key
                                \<lparr>chroma_vals = cv, keyfreqs = kf, key_dict = kd, key = k,
                                 bestcorr = best, altkey = None, altbestcorr = None\<rparr>))))"

text \<open>Lines 109 to 138. The result is the returned pair together with the object after the
  call.\<close>

definition get_key_with_context ::
  "tonal_fragment \<Rightarrow> bool \<Rightarrow> pyfloat \<Rightarrow> error + ((string \<times> pyfloat) \<times> tonal_fragment)" where
  "get_key_with_context s prefer_minor threshold =
     (if prefer_minor \<and> str_contains ''major'' (key s) then
        (case py_split (key s) of
           [] \<Rightarrow> Inl IndexError
         | root_name # _ \<Rightarrow>
             (case list_index PITCHES root_name of
                Inl e \<Rightarrow> Inl e
              | Inr idx \<Rightarrow>
                  (let relative_minor = PITCHES ! nat ((int idx - 3) mod 12) @ '' minor''
                   in if dict_contains (key_dict s) relative_minor then
                        (case dict_item (key_dict s) relative_minor of
                           Inl e \<Rightarrow> Inl e
                         | Inr minor_corr \<Rightarrow>
                             if py_gt minor_corr (py_mul (bestcorr s) threshold)
                             then Inr ((relative_minor, minor_corr), s)
                             else Inr ((key s, bestcorr s), s))
                      else Inr ((key s, bestcorr s), s))))
      else Inr ((key s, bestcorr s), s))"

subsection \<open>The notions of the specification\<close>

text \<open>The rotated vector of the specification: \<open>rotated[m] = chroma[(r + m) mod 12]\<close> for
  \<open>m\<close> from 0 to 11.\<close>

definition spec_rotated :: "real list \<Rightarrow> nat \<Rightarrow> real list" where
  "spec_rotated chroma r = map (\<lambda>m. chroma ! ((r + m) mod 12)) [0..<12]"

text \<open>The Pearson correlation coefficient of the specification: the sum of the products of
  the deviations from the means, over the square root of the product of the two sums of
  squared deviations; undefined (NaN) when one of the vectors has zero variance.\<close>

definition spec_pearson :: "real list \<Rightarrow> real list \<Rightarrow> pyfloat" where
  "spec_pearson xs ys =
     (let sxy = sum_list (map2 (\<lambda>x y. (x - mean xs) * (y - mean ys)) xs ys);
          sxx = sum_list (map (\<lambda>x. (x - mean xs)\<^sup>2) xs);
          syy = sum_list (map (\<lambda>y. (y - mean ys)\<^sup>2) ys)
      in if sxx = 0 \<or> syy = 0 then NaN else Fin (sxy / sqrt (sxx * syy)))"

subsection \<open>Auxiliary notions\<close>

text \<open>The two coefficients that the loop of lines 81 to 90 appends for root \<open>i\<close>, and the 24
  coefficients in the order of the candidate list.\<close>

definition maj_corr_at :: "real list \<Rightarrow> nat \<Rightarrow> pyfloat" where
  "maj_corr_at cv i = py_round3 (corrcoef_10 MAJ_PROFILE (spec_rotated cv i))"

definition min_corr_at :: "real list \<Rightarrow> nat \<Rightarrow> pyfloat" where
  "min_corr_at cv i = py_round3 (corrcoef_10 MIN_PROFILE (spec_rotated cv i))"

definition corrs_of :: "real list \<Rightarrow> pyfloat list" where
  "corrs_of cv = map (maj_corr_at cv) [0..<12] @ map (min_corr_at cv) [0..<12]"

text \<open>The test of line 104, for a best correlation and a candidate's correlation.\<close>

definition qualifies :: "pyfloat \<Rightarrow> pyfloat \<Rightarrow> bool" where
  "qualifies best corr = (py_gt corr (py_mul best (Fin 0.9)) \<and> py_ne corr best)"

text \<open>Deciding \<open>q < a / sqrt D\<close> and \<open>a / sqrt D < q\<close> on squares, for positive \<open>D\<close>.\<close>

definition lt_ratio :: "real \<Rightarrow> real \<Rightarrow> real \<Rightarrow> bool" where
  "lt_ratio q a D = (if 0 \<le> q then 0 < a \<and> q\<^sup>2 * D < a\<^sup>2 else 0 \<le> a \<or> a\<^sup>2 < q\<^sup>2 * D)"

definition ratio_lt :: "real \<Rightarrow> real \<Rightarrow> real \<Rightarrow> bool" where
  "ratio_lt q a D = (if 0 < q then a \<le> 0 \<or> a\<^sup>2 < q\<^sup>2 * D else a < 0 \<and> q\<^sup>2 * D < a\<^sup>2)"

text \<open>Two chroma vectors for concrete runs: the first has a major primary key with an
  alternate, the second a minor primary key; and a vector without variance.\<close>

definition chroma_a :: "real list" where
  "chroma_a = [5, 0, 2, 0, 3, 2, 0, 3, 0, 4, 0, 1]"

definition chroma_b :: "real list" where
  "chroma_b = [6, 3, 4, 5, 3, 4, 3, 5, 4, 3, 3, 3]"

definition chroma_zero :: "real list" where
  "chroma_zero = [0, 0, 0, 0, 0, 0, 0, 0, 0, 0, 0, 0]"

subsection \<open>Double precision as a parameter\<close>

text \<open>
  The source computes three operations in IEEE double precision, with rounding, overflow
  and underflow: \<open>np.corrcoef(x, y)[1, 0]\<close>, \<open>round(v, 3)\<close> and the product \<open>a * b\<close> of two
  doubles. A \<open>machine\<close> gives these three operations; the methods below are the methods of
  the class over an arbitrary machine, and what is proved of them for every machine holds
  of the doubles of the source. The machine \<open>exact\<close> computes without rounding error; over
  it the methods are the methods above (\<open>init_on_exact\<close>, \<open>get_key_with_context_on_exact\<close>).
  The comparisons \<open>>\<close> and \<open>!=\<close> of doubles are exact and are not part of the machine. The
  values are numbers or NaN: \<open>np.corrcoef\<close> clips to \<open>[-1, 1]\<close>, so that no correlation and
  no product of a correlation with a number is infinite.
\<close>

record machine =
  m_corrcoef_10 :: "real list \<Rightarrow> real list \<Rightarrow> pyfloat"
  m_round3 :: "pyfloat \<Rightarrow> pyfloat"
  m_mul :: "pyfloat \<Rightarrow> pyfloat \<Rightarrow> pyfloat"

definition exact :: machine where
  "exact = \<lparr>m_corrcoef_10 = corrcoef_10, m_round3 = py_round3, m_mul = py_mul\<rparr>"

text \<open>Lines 81 to 90.\<close>

fun corr_loop_on ::
  "machine \<Rightarrow> (string, real) dict \<Rightarrow> nat list \<Rightarrow> pyfloat list \<Rightarrow> pyfloat list \<Rightarrow>
     error + (pyfloat list \<times> pyfloat list)" where
  "corr_loop_on M kf [] maj_key_corrs min_key_corrs = Inr (maj_key_corrs, min_key_corrs)"
| "corr_loop_on M kf (i # rest) maj_key_corrs min_key_corrs =
     (case np_array (key_test kf i) of
        Inl e \<Rightarrow> Inl e
      | Inr kt \<Rightarrow>
          (let maj_corr = m_round3 M (m_corrcoef_10 M MAJ_PROFILE kt);
               min_corr = m_round3 M (m_corrcoef_10 M MIN_PROFILE kt)
           in corr_loop_on M kf rest (maj_key_corrs @ [maj_corr]) (min_key_corrs @ [min_corr])))"

text \<open>Lines 76 to 99.\<close>

definition compute_key_correlations_on ::
  "machine \<Rightarrow> (string, real) dict \<Rightarrow> error + (string, pyfloat) dict" where
  "compute_key_correlations_on M kf =
     (case corr_loop_on M kf [0..<12] [] [] of
        Inl e \<Rightarrow> Inl e
      | Inr (maj_key_corrs, min_key_corrs) \<Rightarrow>
          Inr (dict_update
                 (dict_update [] (map (\<lambda>i. (key_names ! i, maj_key_corrs ! i)) [0..<12]))
                 (map (\<lambda>i. (key_names ! (i + 12), min_key_corrs ! i)) [0..<12])))"

text \<open>Lines 101 to 107.\<close>

fun alt_loop_on :: "machine \<Rightarrow> (string \<times> pyfloat) list \<Rightarrow> tonal_fragment \<Rightarrow> tonal_fragment" where
  "alt_loop_on M [] s = s"
| "alt_loop_on M ((k, corr) # items) s =
     (if py_gt corr (m_mul M (bestcorr s) (Fin 0.9)) \<and> py_ne corr (bestcorr s)
      then s\<lparr>altkey := Some k, altbestcorr := Some corr\<rparr>
      else alt_loop_on M items s)"

definition find_alternative_key_on :: "machine \<Rightarrow> tonal_fragment \<Rightarrow> tonal_fragment" where
  "find_alternative_key_on M s = alt_loop_on M (key_dict s) s"

text \<open>Lines 61 to 74 of \<open>__init__\<close>.\<close>

definition init_on :: "machine \<Rightarrow> real list \<Rightarrow> error + tonal_fragment" where
  "init_on M cv =
     (if length cv < 12 then Inl IndexError
      else
        let kf = keyfreqs_of cv
        in case compute_key_correlations_on M kf of
             Inl e \<Rightarrow> Inl e
           | Inr kd \<Rightarrow>
               (case py_max (dict_keys kd) (dict_get kd) of
                  Inl e \<Rightarrow> Inl e
                | Inr k \<Rightarrow>
                    (case dict_item kd k of
                       Inl e \<Rightarrow> Inl e
                     | Inr best \<Rightarrow>
                         Inr (find_alternative_key_on M
                                \<lparr>chroma_vals = cv, keyfreqs = kf, key_dict = kd, key = k,
                                 bestcorr = best, altkey = None, altbestcorr = None\<rparr>))))"

text \<open>Lines 109 to 138.\<close>

definition get_key_with_context_on ::
  "machine \<Rightarrow> tonal_fragment \<Rightarrow> bool \<Rightarrow> pyfloat \<Rightarrow>
     error + ((string \<times> pyfloat) \<times> tonal_fragment)" where
  "get_key_with_context_on M s prefer_minor threshold =
     (if prefer_minor \<and> str_contains ''major'' (key s) then
        (case py_split (key s) of
           [] \<Rightarrow> Inl IndexError
         | root_name # _ \<Rightarrow>
             (case list_index PITCHES root_name of
                Inl e \<Rightarrow> Inl e
              | Inr idx \<Rightarrow>
                  (let relative_minor = PITCHES ! nat ((int idx - 3) mod 12) @ '' minor''
                   in if dict_contains (key_dict s) relative_minor then
                        (case dict_item (key_dict s) relative_minor of
                           Inl e \<Rightarrow> Inl e
                         | Inr minor_corr \<Rightarrow>
                             if py_gt minor_corr (m_mul M (bestcorr s) threshold)
                             then Inr ((relative_minor, minor_corr), s)
                             else Inr ((key s, bestcorr s), s))
                      else Inr ((key s, bestcorr s), s))))
      else Inr ((key s, bestcorr s), s))"

text \<open>The 24 coefficients that the loop of lines 81 to 90 makes on a machine.\<close>

definition corrs_on :: "machine \<Rightarrow> real list \<Rightarrow> pyfloat list" where
  "corrs_on M cv =
     map (\<lambda>i. m_round3 M (m_corrcoef_10 M MAJ_PROFILE (spec_rotated cv i))) [0..<12] @
     map (\<lambda>i. m_round3 M (m_corrcoef_10 M MIN_PROFILE (spec_rotated cv i))) [0..<12]"

section \<open>Dictionaries and the candidate list\<close>

lemma dict_set_fresh: "k \<notin> fst ` set d \<Longrightarrow> dict_set d k v = d @ [(k, v)]"
  by (induction d) auto

lemma dict_update_distinct:
  "distinct (map fst (d @ kvs)) \<Longrightarrow> dict_update d kvs = d @ kvs"
proof (induction kvs arbitrary: d)
  case Nil
  then show ?case by simp
next
  case (Cons kv kvs)
  obtain k v where kv: "kv = (k, v)" by (cases kv)
  from Cons.prems kv have fresh: "k \<notin> fst ` set d" by auto
  from Cons.prems kv have "distinct (map fst ((d @ [(k, v)]) @ kvs))" by simp
  from Cons.IH[OF this] fresh kv show ?case by (simp add: dict_set_fresh)
qed

lemma PITCHES_length: "length PITCHES = 12" by (simp add: PITCHES_def)

lemma PITCHES_distinct: "distinct PITCHES" by (simp add: PITCHES_def)

lemma key_names_length: "length key_names = 24" by (simp add: key_names_def)

lemma key_names_distinct: "distinct key_names"
  by (simp add: key_names_def PITCHES_def upt_rec numeral_nat)

lemma key_names_explicit: "key_names = [''C major'', ''C# major'', ''D major'', ''D# major'', ''E major'', ''F major'',
   ''F# major'', ''G major'', ''G# major'', ''A major'', ''A# major'', ''B major'',
   ''C minor'', ''C# minor'', ''D minor'', ''D# minor'', ''E minor'', ''F minor'',
   ''F# minor'', ''G minor'', ''G# minor'', ''A minor'', ''A# minor'', ''B minor'']"
  by (simp add: key_names_def PITCHES_def upt_rec numeral_nat)

lemma keyfreqs_of_zip: "keyfreqs_of cv = zip PITCHES (map (\<lambda>i. cv ! i) [0..<12])"
proof -
  have "map fst (map (\<lambda>i. (PITCHES ! i, cv ! i)) [0..<12]) = PITCHES"
    by (simp add: PITCHES_def upt_rec numeral_nat)
  then have "distinct (map fst ([] @ map (\<lambda>i. (PITCHES ! i, cv ! i)) [0..<12]))"
    using PITCHES_distinct by simp
  then have "keyfreqs_of cv = map (\<lambda>i. (PITCHES ! i, cv ! i)) [0..<12]"
    unfolding keyfreqs_of_def using dict_update_distinct[of "[]"] by fastforce
  also have "\<dots> = zip PITCHES (map (\<lambda>i. cv ! i) [0..<12])"
    by (simp add: PITCHES_def upt_rec numeral_nat)
  finally show ?thesis .
qed

lemma keyfreqs_get: "j < 12 \<Longrightarrow> dict_get (keyfreqs_of cv) (PITCHES ! j) = Some (cv ! j)"
proof -
  assume j: "j < 12"
  have "map_of (zip PITCHES (map (\<lambda>i. cv ! i) [0..<12])) (PITCHES ! j)
          = Some (map (\<lambda>i. cv ! i) [0..<12] ! j)"
    by (rule map_of_zip_nth) (use j in \<open>simp_all add: PITCHES_length PITCHES_distinct\<close>)
  with j show ?thesis by (simp add: dict_get_def keyfreqs_of_zip)
qed

lemma key_test_keyfreqs: "key_test (keyfreqs_of cv) i = map Some (spec_rotated cv i)"
  by (simp add: key_test_def spec_rotated_def keyfreqs_get)

lemma np_array_Some: "np_array (map Some xs) = Inr xs"
  by (induction xs) simp_all

lemma corr_loop_keyfreqs:
  "corr_loop (keyfreqs_of cv) is majs mins =
     Inr (majs @ map (maj_corr_at cv) is, mins @ map (min_corr_at cv) is)"
  by (induction "is" arbitrary: majs mins)
     (simp_all add: key_test_keyfreqs np_array_Some maj_corr_at_def min_corr_at_def)

lemma compute_key_correlations_keyfreqs:
  "compute_key_correlations (keyfreqs_of cv) = Inr (zip key_names (corrs_of cv))"
proof -
  let ?majs = "map (maj_corr_at cv) [0..<12]" and ?mins = "map (min_corr_at cv) [0..<12]"
  let ?a = "map (\<lambda>i. (key_names ! i, ?majs ! i)) [0..<12]"
  let ?b = "map (\<lambda>i. (key_names ! (i + 12), ?mins ! i)) [0..<12]"
  have ab: "?a @ ?b = zip key_names (corrs_of cv)"
    by (simp add: key_names_explicit corrs_of_def upt_rec numeral_nat)
  have "map fst (?a @ ?b) = key_names"
    unfolding ab by (simp add: corrs_of_def key_names_length)
  then have d: "distinct (map fst (?a @ ?b))" using key_names_distinct by simp
  then have "distinct (map fst ([] @ ?a))" by simp
  then have a: "dict_update [] ?a = ?a" using dict_update_distinct[of "[]" ?a] by simp
  have "dict_update ?a ?b = ?a @ ?b" using d by (rule dict_update_distinct)
  with a ab show ?thesis
    by (simp add: compute_key_correlations_def corr_loop_keyfreqs)
qed

lemma py_gt_trans: "py_gt a b \<Longrightarrow> py_gt b c \<Longrightarrow> py_gt a c"
  by (cases a; cases b; cases c) simp_all

lemma py_gt_not_ge: "py_gt a b \<Longrightarrow> \<not> py_ge b a"
  by (cases a; cases b) (simp_all add: py_ge_def)

lemma py_not_ge_mono: "\<not> py_gt v m \<Longrightarrow> py_gt r m \<Longrightarrow> \<not> py_ge v r"
  by (cases v; cases m; cases r) (simp_all add: py_ge_def)

lemma py_not_gt_mono: "\<not> py_gt v m \<Longrightarrow> py_gt r m \<Longrightarrow> \<not> py_gt v r"
  by (cases v; cases m; cases r) simp_all

text \<open>The scan of \<open>max\<close> over keys \<open>ks\<close> with values \<open>vs\<close>: either the start item stays, or
  the result is at an index whose value beats the start value, is beaten by no value and
  is reached by no earlier value.\<close>

lemma max_loop_index:
  assumes "length ks = length vs" and "\<forall>j<length ks. f (ks ! j) = Some (vs ! j)"
  shows "(max_loop f ks mk (Some mv) = Inr mk \<and> (\<forall>j<length vs. \<not> py_gt (vs ! j) mv)) \<or>
         (\<exists>i<length vs. max_loop f ks mk (Some mv) = Inr (ks ! i) \<and> py_gt (vs ! i) mv \<and>
             (\<forall>j<length vs. \<not> py_gt (vs ! j) (vs ! i)) \<and> (\<forall>j<i. \<not> py_ge (vs ! j) (vs ! i)))"
  using assms
proof (induction ks arbitrary: vs mk mv)
  case Nil
  then show ?case by simp
next
  case (Cons k ks)
  then obtain v vs' where vs: "vs = v # vs'" by (cases vs) auto
  from Cons.prems vs have len: "length ks = length vs'" by simp
  from Cons.prems(2) vs have fk: "f k = Some v" by auto
  from Cons.prems(2) vs have rest: "\<forall>j<length ks. f (ks ! j) = Some (vs' ! j)" by auto
  show ?case
  proof (cases "py_gt v mv")
    case True
    then have step: "max_loop f (k # ks) mk (Some mv) = max_loop f ks k (Some v)"
      using fk by simp
    from Cons.IH[OF len rest, of k v] show ?thesis
    proof (elim disjE exE conjE)
      assume a: "max_loop f ks k (Some v) = Inr k" "\<forall>j<length vs'. \<not> py_gt (vs' ! j) v"
      have "\<forall>j<length vs. \<not> py_gt (vs ! j) (vs ! 0)"
        using a(2) vs by (auto simp: nth_Cons split: nat.splits) (cases v, simp_all)
      with a True step vs show ?thesis
        by (intro disjI2 exI[of _ 0]) simp
    next
      fix i assume a: "i < length vs'" "max_loop f ks k (Some v) = Inr (ks ! i)"
        "py_gt (vs' ! i) v" "\<forall>j<length vs'. \<not> py_gt (vs' ! j) (vs' ! i)"
        "\<forall>j<i. \<not> py_ge (vs' ! j) (vs' ! i)"
      have g: "py_gt (vs' ! i) mv" using a(3) True by (rule py_gt_trans)
      have n1: "\<forall>j<length vs. \<not> py_gt (vs ! j) (vs ! Suc i)"
        using a(3,4) vs py_gt_not_ge[OF a(3)]
        by (auto simp: nth_Cons py_ge_def split: nat.splits)
      have n2: "\<forall>j<Suc i. \<not> py_ge (vs ! j) (vs ! Suc i)"
        using a(5) vs py_gt_not_ge[OF a(3)]
        by (auto simp: nth_Cons split: nat.splits)
      from a(1,2) g n1 n2 step vs show ?thesis
        by (intro disjI2 exI[of _ "Suc i"]) simp
    qed
  next
    case False
    then have step: "max_loop f (k # ks) mk (Some mv) = max_loop f ks mk (Some mv)"
      using fk by simp
    from Cons.IH[OF len rest, of mk mv] show ?thesis
    proof (elim disjE exE conjE)
      assume a: "max_loop f ks mk (Some mv) = Inr mk" "\<forall>j<length vs'. \<not> py_gt (vs' ! j) mv"
      have "\<forall>j<length vs. \<not> py_gt (vs ! j) mv"
        using a(2) vs False by (auto simp: nth_Cons split: nat.splits)
      with a step show ?thesis by simp
    next
      fix i assume a: "i < length vs'" "max_loop f ks mk (Some mv) = Inr (ks ! i)"
        "py_gt (vs' ! i) mv" "\<forall>j<length vs'. \<not> py_gt (vs' ! j) (vs' ! i)"
        "\<forall>j<i. \<not> py_ge (vs' ! j) (vs' ! i)"
      have n1: "\<forall>j<length vs. \<not> py_gt (vs ! j) (vs ! Suc i)"
        using a(4) vs py_not_gt_mono[OF False a(3)]
        by (auto simp: nth_Cons split: nat.splits)
      have n2: "\<forall>j<Suc i. \<not> py_ge (vs ! j) (vs ! Suc i)"
        using a(5) vs py_not_ge_mono[OF False a(3)]
        by (auto simp: nth_Cons split: nat.splits)
      from a(1,2,3) n1 n2 step vs show ?thesis
        by (intro disjI2 exI[of _ "Suc i"]) simp
    qed
  qed
qed

lemma py_max_index:
  assumes "length ks = length vs" and "ks \<noteq> []"
    and "\<forall>j<length ks. f (ks ! j) = Some (vs ! j)"
  shows "\<exists>i<length vs. py_max ks f = Inr (ks ! i) \<and> (i = 0 \<or> py_gt (vs ! i) (vs ! 0)) \<and>
           (\<forall>j<length vs. \<not> py_gt (vs ! j) (vs ! i)) \<and> (\<forall>j<i. \<not> py_ge (vs ! j) (vs ! i))"
proof -
  from assms(2) obtain k ks' where ks: "ks = k # ks'" by (cases ks) auto
  with assms(1) obtain v vs' where vs: "vs = v # vs'" by (cases vs) auto
  from assms ks vs have len: "length ks' = length vs'" by simp
  from assms(3) ks vs have fk: "f k = Some v" by auto
  from assms(3) ks vs have rest: "\<forall>j<length ks'. f (ks' ! j) = Some (vs' ! j)" by auto
  have pm: "py_max ks f = max_loop f ks' k (Some v)"
    using ks fk by (simp add: py_max_def)
  have nn: "\<not> py_gt v v" by (cases v) simp_all
  from max_loop_index[OF len rest, of k v] show ?thesis
  proof (elim disjE exE conjE)
    assume a: "max_loop f ks' k (Some v) = Inr k" "\<forall>j<length vs'. \<not> py_gt (vs' ! j) v"
    have "\<forall>j<length vs. \<not> py_gt (vs ! j) (vs ! 0)"
      using a(2) vs nn by (auto simp: nth_Cons split: nat.splits)
    with a pm ks vs show ?thesis by (intro exI[of _ 0]) simp
  next
    fix i assume a: "i < length vs'" "max_loop f ks' k (Some v) = Inr (ks' ! i)"
      "py_gt (vs' ! i) v" "\<forall>j<length vs'. \<not> py_gt (vs' ! j) (vs' ! i)"
      "\<forall>j<i. \<not> py_ge (vs' ! j) (vs' ! i)"
    have n1: "\<forall>j<length vs. \<not> py_gt (vs ! j) (vs ! Suc i)"
      using a(4) vs py_gt_not_ge[OF a(3)]
      by (auto simp: nth_Cons py_ge_def split: nat.splits)
    have n2: "\<forall>j<Suc i. \<not> py_ge (vs ! j) (vs ! Suc i)"
      using a(5) vs py_gt_not_ge[OF a(3)]
      by (auto simp: nth_Cons split: nat.splits)
    from a(1,2,3) n1 n2 pm ks vs show ?thesis
      by (intro exI[of _ "Suc i"]) simp
  qed
qed

section \<open>The scans\<close>

lemma alt_loop_Cons:
  "alt_loop ((k, c) # items) s =
     (if qualifies (bestcorr s) c then s\<lparr>altkey := Some k, altbestcorr := Some c\<rparr>
      else alt_loop items s)"
  by (simp add: qualifies_def)

lemma alt_loop_none:
  "\<forall>j<length items. \<not> qualifies (bestcorr s) (snd (items ! j)) \<Longrightarrow> alt_loop items s = s"
proof (induction items)
  case Nil
  then show ?case by simp
next
  case (Cons x items)
  obtain k c where x: "x = (k, c)" by (cases x)
  from Cons.prems have h: "\<not> qualifies (bestcorr s) c" using x by auto
  from Cons.prems have "\<forall>j<length items. \<not> qualifies (bestcorr s) (snd (items ! j))" by auto
  with Cons.IH h x show ?case by (simp add: alt_loop_Cons del: alt_loop.simps)
qed

lemma alt_loop_first:
  "i < length items \<Longrightarrow> qualifies (bestcorr s) (snd (items ! i)) \<Longrightarrow>
   \<forall>j<i. \<not> qualifies (bestcorr s) (snd (items ! j)) \<Longrightarrow>
   alt_loop items s = s\<lparr>altkey := Some (fst (items ! i)), altbestcorr := Some (snd (items ! i))\<rparr>"
proof (induction items arbitrary: i)
  case Nil
  then show ?case by simp
next
  case (Cons x items)
  obtain k c where x: "x = (k, c)" by (cases x)
  show ?case
  proof (cases i)
    case 0
    with Cons.prems x show ?thesis by (simp add: alt_loop_Cons del: alt_loop.simps)
  next
    case (Suc i')
    from Cons.prems(3) Suc have h: "\<not> qualifies (bestcorr s) c" using x by auto
    from Cons.prems(3) Suc have "\<forall>j<i'. \<not> qualifies (bestcorr s) (snd (items ! j))" by auto
    with Cons.IH[of i'] Cons.prems(1,2) Suc h x show ?thesis
      by (simp add: alt_loop_Cons del: alt_loop.simps)
  qed
qed

text \<open>The fields other than the alternate are the same after the scan.\<close>

lemma alt_loop_frame:
  "key (alt_loop items s) = key s \<and> bestcorr (alt_loop items s) = bestcorr s \<and>
   key_dict (alt_loop items s) = key_dict s \<and> keyfreqs (alt_loop items s) = keyfreqs s \<and>
   chroma_vals (alt_loop items s) = chroma_vals s"
  by (induction items) auto

lemma key_dict_nth: "j < 24 \<Longrightarrow> zip key_names (corrs_of cv) ! j = (key_names ! j, corrs_of cv ! j)"
  by (simp add: key_names_length corrs_of_def)

lemma corrs_of_length: "length (corrs_of cv) = 24" by (simp add: corrs_of_def)

lemma key_dict_get: "j < 24 \<Longrightarrow> dict_get (zip key_names (corrs_of cv)) (key_names ! j) = Some (corrs_of cv ! j)"
  unfolding dict_get_def
  by (rule map_of_zip_nth) (simp_all add: key_names_length corrs_of_length key_names_distinct)

lemma init_structure:
  assumes "12 \<le> length cv"
  shows "\<exists>i<24. init cv = Inr (find_alternative_key
            \<lparr>chroma_vals = cv, keyfreqs = keyfreqs_of cv, key_dict = zip key_names (corrs_of cv),
             key = key_names ! i, bestcorr = corrs_of cv ! i, altkey = None, altbestcorr = None\<rparr>) \<and>
          (i = 0 \<or> py_gt (corrs_of cv ! i) (corrs_of cv ! 0)) \<and>
          (\<forall>j<24. \<not> py_gt (corrs_of cv ! j) (corrs_of cv ! i)) \<and>
          (\<forall>j<i. \<not> py_ge (corrs_of cv ! j) (corrs_of cv ! i))"
proof -
  let ?kd = "zip key_names (corrs_of cv)"
  have keys: "dict_keys ?kd = key_names"
    by (simp add: dict_keys_def key_names_length corrs_of_length)
  have "\<exists>i<length (corrs_of cv). py_max key_names (dict_get ?kd) = Inr (key_names ! i) \<and>
           (i = 0 \<or> py_gt (corrs_of cv ! i) (corrs_of cv ! 0)) \<and>
           (\<forall>j<length (corrs_of cv). \<not> py_gt (corrs_of cv ! j) (corrs_of cv ! i)) \<and>
           (\<forall>j<i. \<not> py_ge (corrs_of cv ! j) (corrs_of cv ! i))"
    proof (rule py_max_index)
    show "key_names \<noteq> []" using key_names_length by auto
  qed (auto simp: key_names_length corrs_of_length key_dict_get)
  then obtain i where i: "i < 24" "py_max key_names (dict_get ?kd) = Inr (key_names ! i)"
    "i = 0 \<or> py_gt (corrs_of cv ! i) (corrs_of cv ! 0)"
    "\<forall>j<24. \<not> py_gt (corrs_of cv ! j) (corrs_of cv ! i)"
    "\<forall>j<i. \<not> py_ge (corrs_of cv ! j) (corrs_of cv ! i)"
    by (auto simp: corrs_of_length)
  have item: "dict_item ?kd (key_names ! i) = Inr (corrs_of cv ! i)"
    using key_dict_get[OF i(1), of cv] by (simp add: dict_item_def dict_get_def)
  have "init cv = Inr (find_alternative_key
            \<lparr>chroma_vals = cv, keyfreqs = keyfreqs_of cv, key_dict = ?kd,
             key = key_names ! i, bestcorr = corrs_of cv ! i, altkey = None, altbestcorr = None\<rparr>)"
    using assms i(2) item keys
    by (simp add: init_def Let_def compute_key_correlations_keyfreqs)
  with i show ?thesis by blast
qed

section \<open>Rounding and correlation\<close>

lemma sq_less_pos: "(x::real)\<^sup>2 < y\<^sup>2 \<Longrightarrow> 0 \<le> y \<Longrightarrow> x < y"
  by (rule power2_less_imp_less)

lemma lt_ratio_sound: "0 < D \<Longrightarrow> lt_ratio q a D \<Longrightarrow> q < a / sqrt D"
proof -
  assume D: "0 < D" and b: "lt_ratio q a D"
  define s where "s = sqrt D"
  have s0: "0 < s" using D by (simp add: s_def)
  have s2: "D = s * s" using D by (simp add: s_def)
  have "q * s < a"
  proof (cases "0 \<le> q")
    case True
    with b have a: "0 < a" "q\<^sup>2 * D < a\<^sup>2" by (simp_all add: lt_ratio_def)
    have "(q * s)\<^sup>2 = q\<^sup>2 * D" unfolding s2 power2_eq_square by (simp only: mult_ac)
    with a(2) have "(q * s)\<^sup>2 < a\<^sup>2" by (simp only:)
    moreover have "0 \<le> a" using a(1) by simp
    ultimately show ?thesis by (rule sq_less_pos)
  next
    case False
    then have q: "q < 0" by simp
    have qs: "q * s < 0" using q s0 by (rule mult_neg_pos)
    from False b have "0 \<le> a \<or> a\<^sup>2 < q\<^sup>2 * D" by (simp add: lt_ratio_def)
    then show ?thesis
    proof
      assume "0 \<le> a" with qs show ?thesis by linarith
    next
      assume h: "a\<^sup>2 < q\<^sup>2 * D"
      have "(- (q * s))\<^sup>2 = q\<^sup>2 * D" unfolding s2 power2_eq_square by (simp only: mult_ac minus_mult_minus)
      moreover have "(- a)\<^sup>2 = a\<^sup>2" by (rule power2_minus)
      ultimately have "(- a)\<^sup>2 < (- (q * s))\<^sup>2" using h by (simp only:)
      moreover have "0 \<le> - (q * s)" using qs by linarith
      ultimately have "- a < - (q * s)" by (rule sq_less_pos)
      then show ?thesis by linarith
    qed
  qed
  then have "q < a / s" using s0 by (simp only: pos_less_divide_eq)
  then show ?thesis by (simp only: s_def)
qed

lemma ratio_lt_sound: "0 < D \<Longrightarrow> ratio_lt q a D \<Longrightarrow> a / sqrt D < q"
proof -
  assume D: "0 < D" and b: "ratio_lt q a D"
  have "lt_ratio (- q) (- a) D" using b unfolding lt_ratio_def ratio_lt_def
    by (simp split: if_splits)
  from lt_ratio_sound[OF D this] show ?thesis by simp
qed

lemma rint_eval: "of_int k - 1 / 2 < x \<Longrightarrow> x < of_int k + 1 / 2 \<Longrightarrow> rint x = k"
proof -
  assume a: "of_int k - 1 / 2 < x" "x < of_int k + 1 / 2"
  have "\<lfloor>x\<rfloor> = k \<or> \<lfloor>x\<rfloor> = k - 1" using a by linarith
  then show ?thesis
  proof
    assume f: "\<lfloor>x\<rfloor> = k"
    then have "x - of_int \<lfloor>x\<rfloor> < 1 / 2" using a by simp
    then show ?thesis using f by (simp add: rint_def Let_def)
  next
    assume f: "\<lfloor>x\<rfloor> = k - 1"
    then have "1 / 2 < x - of_int \<lfloor>x\<rfloor>" using a by simp
    then show ?thesis using f by (simp add: rint_def Let_def)
  qed
qed

lemma rint_of_int: "rint (of_int k) = k"
  by (rule rint_eval) simp_all

lemma rint_le: "x \<le> of_int n \<Longrightarrow> rint x \<le> n"
  unfolding rint_def Let_def by (auto; linarith)

lemma rint_ge: "of_int n \<le> x \<Longrightarrow> n \<le> rint x"
  unfolding rint_def Let_def by (auto; linarith)

text \<open>Sums of products of deviations from the mean.\<close>

lemma np_cov_self_nonneg: "2 \<le> length xs \<Longrightarrow> 0 \<le> np_cov xs xs"
proof -
  assume "2 \<le> length xs"
  then have "0 < real (length xs) - 1" by simp
  moreover have "0 \<le> sum_list (map2 (\<lambda>x y. (x - mean xs) * (y - mean xs)) xs xs)"
    by (rule sum_list_nonneg) (auto simp: zip_same)
  ultimately show ?thesis by (simp add: np_cov_def)
qed

lemma corrcoef_10_pos:
  assumes "0 < np_cov xs xs" "0 < np_cov ys ys"
  shows "corrcoef_10 xs ys =
           Fin (min (max (np_cov ys xs / sqrt (np_cov xs xs * np_cov ys ys)) (- 1)) 1)"
  using assms by (simp add: corrcoef_10_def Let_def real_sqrt_mult mult.commute)

lemma clip_round:
  fixes c :: real
  assumes "(2 * of_int k - 1) / 2000 < c" "c < (2 * of_int k + 1) / 2000"
    and "- 1000 \<le> k" "k \<le> 1000"
  shows "rint (min (max c (- 1)) 1 * 1000) = k"
proof (rule rint_eval)
  have k: "- 1000 \<le> (of_int k :: real)" "(of_int k :: real) \<le> 1000" using assms(3,4) by linarith+
  show "of_int k - 1 / 2 < min (max c (- 1)) 1 * 1000"
    using assms(1) k unfolding min_def max_def by (simp split: if_splits; linarith)
  show "min (max c (- 1)) 1 * 1000 < of_int k + 1 / 2"
    using assms(2) k unfolding min_def max_def by (simp split: if_splits; linarith)
qed

lemma corr_round_eval:
  assumes "0 < np_cov xs xs" "0 < np_cov ys ys"
    and "- 1000 \<le> k" "k \<le> 1000"
    and "lt_ratio ((2 * of_int k - 1) / 2000) (np_cov ys xs) (np_cov xs xs * np_cov ys ys)"
    and "ratio_lt ((2 * of_int k + 1) / 2000) (np_cov ys xs) (np_cov xs xs * np_cov ys ys)"
  shows "py_round3 (corrcoef_10 xs ys) = Fin (of_int k / 1000)"
proof -
  let ?D = "np_cov xs xs * np_cov ys ys"
  let ?c = "np_cov ys xs / sqrt ?D"
  have D: "0 < ?D" using assms(1,2) by simp
  have lo: "(2 * of_int k - 1) / 2000 < ?c" using D assms(5) by (rule lt_ratio_sound)
  have hi: "?c < (2 * of_int k + 1) / 2000" using D assms(6) by (rule ratio_lt_sound)
  have "rint (min (max ?c (- 1)) 1 * 1000) = k" using lo hi assms(3,4) by (rule clip_round)
  then show ?thesis using assms(1,2) by (simp only: corrcoef_10_pos py_round3.simps)
qed

section \<open>The reported key\<close>

lemma upt_12: "[0..<12] = [0, 1, 2, 3, 4, 5, 6, 7, 8, 9, 10, 11]"
  by (simp add: upt_rec numeral_nat)

lemma all_less_12: "(\<forall>r<12. P r) = (\<forall>r\<in>set [0..<12]. P (r::nat))"
  by auto

lemma major_key_parts:
  "\<forall>r<12. str_contains ''major'' (PITCHES ! r @ '' major'') \<and>
           py_split (PITCHES ! r @ '' major'') = [PITCHES ! r, ''major''] \<and>
           list_index PITCHES (PITCHES ! r) = Inr r \<and>
           key_names ! r = PITCHES ! r @ '' major'' \<and>
           key_names ! (12 + r) = PITCHES ! r @ '' minor''"
  unfolding all_less_12 upt_12
  by (simp add: PITCHES_def key_names_explicit py_split_def is_space_def)

lemma minor_key_no_major:
  "\<forall>r<12. \<not> str_contains ''major'' (PITCHES ! r @ '' minor'')"
  unfolding all_less_12 upt_12
  by (simp add: PITCHES_def)

lemma rel_minor_index: "nat ((int r - 3) mod 12) < 12"
  by simp

lemma get_key_with_context_major:
  assumes "r < 12" "key s = PITCHES ! r @ '' major''"
    and "key_dict s = zip key_names vs" "length vs = 24"
  shows "get_key_with_context s True threshold =
           (if py_gt (vs ! (12 + nat ((int r - 3) mod 12))) (py_mul (bestcorr s) threshold)
            then Inr ((PITCHES ! nat ((int r - 3) mod 12) @ '' minor'',
                       vs ! (12 + nat ((int r - 3) mod 12))), s)
            else Inr ((key s, bestcorr s), s))"
proof -
  let ?m = "nat ((int r - 3) mod 12)"
  have m: "?m < 12" by simp
  have name: "key_names ! (12 + ?m) = PITCHES ! ?m @ '' minor''"
    using major_key_parts m by blast
  have "map_of (zip key_names vs) (key_names ! (12 + ?m)) = Some (vs ! (12 + ?m))"
    by (rule map_of_zip_nth) (use m assms(4) in \<open>simp_all add: key_names_length key_names_distinct\<close>)
  then have look: "map_of (key_dict s) (PITCHES ! ?m @ '' minor'') = Some (vs ! (12 + ?m))"
    using name assms(3) by simp
  have parts: "str_contains ''major'' (key s)" "py_split (key s) = [PITCHES ! r, ''major'']"
    "list_index PITCHES (PITCHES ! r) = Inr r"
    using major_key_parts assms(1,2) by simp_all
  show ?thesis
    unfolding get_key_with_context_def
    using parts look by (simp add: Let_def dict_contains_def dict_item_def)
qed

lemma get_key_with_context_same_object:
  "get_key_with_context s prefer_minor threshold = Inr (res, s') \<Longrightarrow> s' = s"
  unfolding get_key_with_context_def
  by (auto simp: Let_def split: if_splits list.splits sum.splits)

lemma get_key_with_context_plain:
  "\<not> (prefer_minor \<and> str_contains ''major'' (key s)) \<Longrightarrow>
   get_key_with_context s prefer_minor threshold = Inr ((key s, bestcorr s), s)"
  unfolding get_key_with_context_def by (cases prefer_minor) auto

section \<open>Variance\<close>

lemma np_cov_self:
  "np_cov xs xs = sum_list (map (\<lambda>x. (x - mean xs)\<^sup>2) xs) / (real (length xs) - 1)"
  by (simp add: np_cov_def zip_same_conv_map o_def power2_eq_square)

lemma np_cov_dev:
  "np_cov xs ys = sum_list (map2 (*) (map (\<lambda>x. x - mean xs) xs) (map (\<lambda>y. y - mean ys) ys))
                    / (real (length xs) - 1)"
  by (simp add: np_cov_def zip_map_map o_def split_def)

lemma sumsq_zero_iff:
  "sum_list (map (\<lambda>x. (x - m)\<^sup>2) xs) = 0 \<longleftrightarrow> (\<forall>x\<in>set xs. x = (m::real))"
proof -
  have "sum_list (map (\<lambda>x. (x - m)\<^sup>2) xs) = 0 \<longleftrightarrow> (\<forall>y\<in>set (map (\<lambda>x. (x - m)\<^sup>2) xs). y = 0)"
    by (rule sum_list_nonneg_eq_0_iff) auto
  then show ?thesis by auto
qed

lemma sumsq_nonneg: "0 \<le> sum_list (map (\<lambda>x. (x - m)\<^sup>2) xs)" for m :: real
  by (rule sum_list_nonneg) auto

lemma np_cov_self_pos:
  assumes "2 \<le> length xs" "x \<in> set xs" "y \<in> set xs" "x \<noteq> y"
  shows "0 < np_cov xs xs"
proof -
  have "sum_list (map (\<lambda>x. (x - mean xs)\<^sup>2) xs) \<noteq> 0"
    using assms(2,3,4) sumsq_zero_iff[of "mean xs" xs] by auto
  then have "0 < sum_list (map (\<lambda>x. (x - mean xs)\<^sup>2) xs)"
    using sumsq_nonneg[of "mean xs" xs] by linarith
  moreover have "0 < real (length xs) - 1" using assms(1) by simp
  ultimately show ?thesis by (simp add: np_cov_self)
qed

lemma mean_replicate: "0 < n \<Longrightarrow> mean (replicate n c) = c"
  by (simp add: mean_def sum_list_replicate)

lemma np_cov_replicate: "0 < n \<Longrightarrow> np_cov (replicate n c) (replicate n c) = 0"
  by (simp add: np_cov_self mean_replicate sum_list_replicate)

text \<open>A vector without variance has covariance zero with every vector.\<close>

lemma np_cov_zero_variance:
  assumes "np_cov ys ys = 0" "2 \<le> length ys" "length xs = length ys"
  shows "np_cov ys xs = 0"
proof -
  have "0 < real (length ys) - 1" using assms(2) by simp
  with assms(1) have "sum_list (map (\<lambda>y. (y - mean ys)\<^sup>2) ys) = 0"
    by (simp add: np_cov_self)
  then have all: "\<forall>y\<in>set ys. y = mean ys" by (simp add: sumsq_zero_iff)
  have all0: "\<forall>p\<in>set (zip ys xs). (fst p - mean ys) * (snd p - mean xs) = 0"
    using all by (auto dest: set_zip_leftD)
  have "map (\<lambda>p. (fst p - mean ys) * (snd p - mean xs)) (zip ys xs) = map (\<lambda>p. 0) (zip ys xs)"
    using all0 by (intro map_cong[OF refl]) blast
  then have "sum_list (map (\<lambda>p. (fst p - mean ys) * (snd p - mean xs)) (zip ys xs))
               = sum_list (map (\<lambda>p. 0) (zip ys xs))"
    by (rule arg_cong)
  then have "sum_list (map (\<lambda>p. (fst p - mean ys) * (snd p - mean xs)) (zip ys xs)) = 0"
    by (simp only: sum_list_0)
  then show ?thesis by (simp add: np_cov_def split_def)
qed

lemma corrcoef_10_replicate: "corrcoef_10 xs (replicate 12 c) = NaN"
  by (simp add: corrcoef_10_def Let_def np_cov_replicate)

lemma spec_rotated_const:
  "\<forall>i<12. cv ! i = c \<Longrightarrow> spec_rotated cv r = replicate 12 c"
  unfolding spec_rotated_def by (simp add: map_replicate_const)

lemma corrs_of_const:
  assumes "\<forall>i<12. cv ! i = c"
  shows "corrs_of cv = replicate 24 NaN"
proof -
  have "maj_corr_at cv i = NaN" "min_corr_at cv i = NaN" for i
    using spec_rotated_const[OF assms]
    by (simp_all add: maj_corr_at_def min_corr_at_def corrcoef_10_replicate)
  then have "maj_corr_at cv = (\<lambda>i. NaN)" "min_corr_at cv = (\<lambda>i. NaN)" by auto
  then have "corrs_of cv = replicate 12 NaN @ replicate 12 NaN"
    by (simp add: corrs_of_def map_replicate_const)
  then show ?thesis by (simp add: replicate_add[symmetric])
qed

section \<open>Two concrete runs\<close>

lemma chroma_a_rotated:
  "spec_rotated chroma_a 0 = [5, 0, 2, 0, 3, 2, 0, 3, 0, 4, 0, 1]"
  "spec_rotated chroma_a 1 = [0, 2, 0, 3, 2, 0, 3, 0, 4, 0, 1, 5]"
  "spec_rotated chroma_a 2 = [2, 0, 3, 2, 0, 3, 0, 4, 0, 1, 5, 0]"
  "spec_rotated chroma_a 3 = [0, 3, 2, 0, 3, 0, 4, 0, 1, 5, 0, 2]"
  "spec_rotated chroma_a 4 = [3, 2, 0, 3, 0, 4, 0, 1, 5, 0, 2, 0]"
  "spec_rotated chroma_a 5 = [2, 0, 3, 0, 4, 0, 1, 5, 0, 2, 0, 3]"
  "spec_rotated chroma_a 6 = [0, 3, 0, 4, 0, 1, 5, 0, 2, 0, 3, 2]"
  "spec_rotated chroma_a 7 = [3, 0, 4, 0, 1, 5, 0, 2, 0, 3, 2, 0]"
  "spec_rotated chroma_a 8 = [0, 4, 0, 1, 5, 0, 2, 0, 3, 2, 0, 3]"
  "spec_rotated chroma_a 9 = [4, 0, 1, 5, 0, 2, 0, 3, 2, 0, 3, 0]"
  "spec_rotated chroma_a 10 = [0, 1, 5, 0, 2, 0, 3, 2, 0, 3, 0, 4]"
  "spec_rotated chroma_a 11 = [1, 5, 0, 2, 0, 3, 2, 0, 3, 0, 4, 0]"
  by (simp_all add: spec_rotated_def chroma_a_def upt_12)

lemma chroma_a_maj:
  "maj_corr_at chroma_a 0 = Fin 0.911"
  "maj_corr_at chroma_a 1 = Fin (- 0.607)"
  "maj_corr_at chroma_a 2 = Fin 0.244"
  "maj_corr_at chroma_a 3 = Fin (- 0.246)"
  "maj_corr_at chroma_a 4 = Fin (- 0.042)"
  "maj_corr_at chroma_a 5 = Fin 0.599"
  "maj_corr_at chroma_a 6 = Fin (- 0.758)"
  "maj_corr_at chroma_a 7 = Fin 0.547"
  "maj_corr_at chroma_a 8 = Fin (- 0.323)"
  "maj_corr_at chroma_a 9 = Fin 0.244"
  "maj_corr_at chroma_a 10 = Fin (- 0.032)"
  "maj_corr_at chroma_a 11 = Fin (- 0.538)"
  unfolding maj_corr_at_def chroma_a_rotated
  apply (rule trans[OF corr_round_eval[where k = "911"]];
      simp add: np_cov_def mean_def MAJ_PROFILE_def lt_ratio_def ratio_lt_def power2_eq_square)
  apply (rule trans[OF corr_round_eval[where k = "- 607"]];
      simp add: np_cov_def mean_def MAJ_PROFILE_def lt_ratio_def ratio_lt_def power2_eq_square)
  apply (rule trans[OF corr_round_eval[where k = "244"]];
      simp add: np_cov_def mean_def MAJ_PROFILE_def lt_ratio_def ratio_lt_def power2_eq_square)
  apply (rule trans[OF corr_round_eval[where k = "- 246"]];
      simp add: np_cov_def mean_def MAJ_PROFILE_def lt_ratio_def ratio_lt_def power2_eq_square)
  apply (rule trans[OF corr_round_eval[where k = "- 42"]];
      simp add: np_cov_def mean_def MAJ_PROFILE_def lt_ratio_def ratio_lt_def power2_eq_square)
  apply (rule trans[OF corr_round_eval[where k = "599"]];
      simp add: np_cov_def mean_def MAJ_PROFILE_def lt_ratio_def ratio_lt_def power2_eq_square)
  apply (rule trans[OF corr_round_eval[where k = "- 758"]];
      simp add: np_cov_def mean_def MAJ_PROFILE_def lt_ratio_def ratio_lt_def power2_eq_square)
  apply (rule trans[OF corr_round_eval[where k = "547"]];
      simp add: np_cov_def mean_def MAJ_PROFILE_def lt_ratio_def ratio_lt_def power2_eq_square)
  apply (rule trans[OF corr_round_eval[where k = "- 323"]];
      simp add: np_cov_def mean_def MAJ_PROFILE_def lt_ratio_def ratio_lt_def power2_eq_square)
  apply (rule trans[OF corr_round_eval[where k = "244"]];
      simp add: np_cov_def mean_def MAJ_PROFILE_def lt_ratio_def ratio_lt_def power2_eq_square)
  apply (rule trans[OF corr_round_eval[where k = "- 32"]];
      simp add: np_cov_def mean_def MAJ_PROFILE_def lt_ratio_def ratio_lt_def power2_eq_square)
  by (rule trans[OF corr_round_eval[where k = "- 538"]];
      simp add: np_cov_def mean_def MAJ_PROFILE_def lt_ratio_def ratio_lt_def power2_eq_square)

lemma chroma_a_min:
  "min_corr_at chroma_a 0 = Fin 0.32"
  "min_corr_at chroma_a 1 = Fin (- 0.202)"
  "min_corr_at chroma_a 2 = Fin 0.373"
  "min_corr_at chroma_a 3 = Fin (- 0.738)"
  "min_corr_at chroma_a 4 = Fin 0.499"
  "min_corr_at chroma_a 5 = Fin 0.026"
  "min_corr_at chroma_a 6 = Fin (- 0.173)"
  "min_corr_at chroma_a 7 = Fin 0.144"
  "min_corr_at chroma_a 8 = Fin (- 0.559)"
  "min_corr_at chroma_a 9 = Fin 0.885"
  "min_corr_at chroma_a 10 = Fin (- 0.46)"
  "min_corr_at chroma_a 11 = Fin (- 0.116)"
  unfolding min_corr_at_def chroma_a_rotated
  apply (rule trans[OF corr_round_eval[where k = "320"]];
      simp add: np_cov_def mean_def MIN_PROFILE_def lt_ratio_def ratio_lt_def power2_eq_square)
  apply (rule trans[OF corr_round_eval[where k = "- 202"]];
      simp add: np_cov_def mean_def MIN_PROFILE_def lt_ratio_def ratio_lt_def power2_eq_square)
  apply (rule trans[OF corr_round_eval[where k = "373"]];
      simp add: np_cov_def mean_def MIN_PROFILE_def lt_ratio_def ratio_lt_def power2_eq_square)
  apply (rule trans[OF corr_round_eval[where k = "- 738"]];
      simp add: np_cov_def mean_def MIN_PROFILE_def lt_ratio_def ratio_lt_def power2_eq_square)
  apply (rule trans[OF corr_round_eval[where k = "499"]];
      simp add: np_cov_def mean_def MIN_PROFILE_def lt_ratio_def ratio_lt_def power2_eq_square)
  apply (rule trans[OF corr_round_eval[where k = "26"]];
      simp add: np_cov_def mean_def MIN_PROFILE_def lt_ratio_def ratio_lt_def power2_eq_square)
  apply (rule trans[OF corr_round_eval[where k = "- 173"]];
      simp add: np_cov_def mean_def MIN_PROFILE_def lt_ratio_def ratio_lt_def power2_eq_square)
  apply (rule trans[OF corr_round_eval[where k = "144"]];
      simp add: np_cov_def mean_def MIN_PROFILE_def lt_ratio_def ratio_lt_def power2_eq_square)
  apply (rule trans[OF corr_round_eval[where k = "- 559"]];
      simp add: np_cov_def mean_def MIN_PROFILE_def lt_ratio_def ratio_lt_def power2_eq_square)
  apply (rule trans[OF corr_round_eval[where k = "885"]];
      simp add: np_cov_def mean_def MIN_PROFILE_def lt_ratio_def ratio_lt_def power2_eq_square)
  apply (rule trans[OF corr_round_eval[where k = "- 460"]];
      simp add: np_cov_def mean_def MIN_PROFILE_def lt_ratio_def ratio_lt_def power2_eq_square)
  by (rule trans[OF corr_round_eval[where k = "- 116"]];
      simp add: np_cov_def mean_def MIN_PROFILE_def lt_ratio_def ratio_lt_def power2_eq_square)

lemma chroma_a_corrs:
  "corrs_of chroma_a =
     [Fin 0.911, Fin (- 0.607), Fin 0.244, Fin (- 0.246), Fin (- 0.042), Fin 0.599,
      Fin (- 0.758), Fin 0.547, Fin (- 0.323), Fin 0.244, Fin (- 0.032), Fin (- 0.538),
      Fin 0.32, Fin (- 0.202), Fin 0.373, Fin (- 0.738), Fin 0.499, Fin 0.026,
      Fin (- 0.173), Fin 0.144, Fin (- 0.559), Fin 0.885, Fin (- 0.46), Fin (- 0.116)]"
  by (simp add: corrs_of_def upt_12 chroma_a_maj chroma_a_min del: One_nat_def)

lemma chroma_b_rotated:
  "spec_rotated chroma_b 0 = [6, 3, 4, 5, 3, 4, 3, 5, 4, 3, 3, 3]"
  "spec_rotated chroma_b 1 = [3, 4, 5, 3, 4, 3, 5, 4, 3, 3, 3, 6]"
  "spec_rotated chroma_b 2 = [4, 5, 3, 4, 3, 5, 4, 3, 3, 3, 6, 3]"
  "spec_rotated chroma_b 3 = [5, 3, 4, 3, 5, 4, 3, 3, 3, 6, 3, 4]"
  "spec_rotated chroma_b 4 = [3, 4, 3, 5, 4, 3, 3, 3, 6, 3, 4, 5]"
  "spec_rotated chroma_b 5 = [4, 3, 5, 4, 3, 3, 3, 6, 3, 4, 5, 3]"
  "spec_rotated chroma_b 6 = [3, 5, 4, 3, 3, 3, 6, 3, 4, 5, 3, 4]"
  "spec_rotated chroma_b 7 = [5, 4, 3, 3, 3, 6, 3, 4, 5, 3, 4, 3]"
  "spec_rotated chroma_b 8 = [4, 3, 3, 3, 6, 3, 4, 5, 3, 4, 3, 5]"
  "spec_rotated chroma_b 9 = [3, 3, 3, 6, 3, 4, 5, 3, 4, 3, 5, 4]"
  "spec_rotated chroma_b 10 = [3, 3, 6, 3, 4, 5, 3, 4, 3, 5, 4, 3]"
  "spec_rotated chroma_b 11 = [3, 6, 3, 4, 5, 3, 4, 3, 5, 4, 3, 3]"
  by (simp_all add: spec_rotated_def chroma_b_def upt_12)

lemma chroma_b_maj:
  "maj_corr_at chroma_b 0 = Fin 0.617"
  "maj_corr_at chroma_b 1 = Fin (- 0.16)"
  "maj_corr_at chroma_b 2 = Fin (- 0.275)"
  "maj_corr_at chroma_b 3 = Fin 0.54"
  "maj_corr_at chroma_b 4 = Fin (- 0.558)"
  "maj_corr_at chroma_b 5 = Fin 0.309"
  "maj_corr_at chroma_b 6 = Fin (- 0.451)"
  "maj_corr_at chroma_b 7 = Fin 0.31"
  "maj_corr_at chroma_b 8 = Fin 0.467"
  "maj_corr_at chroma_b 9 = Fin (- 0.592)"
  "maj_corr_at chroma_b 10 = Fin 0.199"
  "maj_corr_at chroma_b 11 = Fin (- 0.407)"
  unfolding maj_corr_at_def chroma_b_rotated
  apply (rule trans[OF corr_round_eval[where k = "617"]];
      simp add: np_cov_def mean_def MAJ_PROFILE_def lt_ratio_def ratio_lt_def power2_eq_square)
  apply (rule trans[OF corr_round_eval[where k = "- 160"]];
      simp add: np_cov_def mean_def MAJ_PROFILE_def lt_ratio_def ratio_lt_def power2_eq_square)
  apply (rule trans[OF corr_round_eval[where k = "- 275"]];
      simp add: np_cov_def mean_def MAJ_PROFILE_def lt_ratio_def ratio_lt_def power2_eq_square)
  apply (rule trans[OF corr_round_eval[where k = "540"]];
      simp add: np_cov_def mean_def MAJ_PROFILE_def lt_ratio_def ratio_lt_def power2_eq_square)
  apply (rule trans[OF corr_round_eval[where k = "- 558"]];
      simp add: np_cov_def mean_def MAJ_PROFILE_def lt_ratio_def ratio_lt_def power2_eq_square)
  apply (rule trans[OF corr_round_eval[where k = "309"]];
      simp add: np_cov_def mean_def MAJ_PROFILE_def lt_ratio_def ratio_lt_def power2_eq_square)
  apply (rule trans[OF corr_round_eval[where k = "- 451"]];
      simp add: np_cov_def mean_def MAJ_PROFILE_def lt_ratio_def ratio_lt_def power2_eq_square)
  apply (rule trans[OF corr_round_eval[where k = "310"]];
      simp add: np_cov_def mean_def MAJ_PROFILE_def lt_ratio_def ratio_lt_def power2_eq_square)
  apply (rule trans[OF corr_round_eval[where k = "467"]];
      simp add: np_cov_def mean_def MAJ_PROFILE_def lt_ratio_def ratio_lt_def power2_eq_square)
  apply (rule trans[OF corr_round_eval[where k = "- 592"]];
      simp add: np_cov_def mean_def MAJ_PROFILE_def lt_ratio_def ratio_lt_def power2_eq_square)
  apply (rule trans[OF corr_round_eval[where k = "199"]];
      simp add: np_cov_def mean_def MAJ_PROFILE_def lt_ratio_def ratio_lt_def power2_eq_square)
  by (rule trans[OF corr_round_eval[where k = "- 407"]];
      simp add: np_cov_def mean_def MAJ_PROFILE_def lt_ratio_def ratio_lt_def power2_eq_square)

lemma chroma_b_min:
  "min_corr_at chroma_b 0 = Fin 0.965"
  "min_corr_at chroma_b 1 = Fin (- 0.397)"
  "min_corr_at chroma_b 2 = Fin (- 0.029)"
  "min_corr_at chroma_b 3 = Fin (- 0.069)"
  "min_corr_at chroma_b 4 = Fin 0.042"
  "min_corr_at chroma_b 5 = Fin 0.386"
  "min_corr_at chroma_b 6 = Fin (- 0.59)"
  "min_corr_at chroma_b 7 = Fin 0.358"
  "min_corr_at chroma_b 8 = Fin (- 0.138)"
  "min_corr_at chroma_b 9 = Fin 0.109"
  "min_corr_at chroma_b 10 = Fin (- 0.249)"
  "min_corr_at chroma_b 11 = Fin (- 0.386)"
  unfolding min_corr_at_def chroma_b_rotated
  apply (rule trans[OF corr_round_eval[where k = "965"]];
      simp add: np_cov_def mean_def MIN_PROFILE_def lt_ratio_def ratio_lt_def power2_eq_square)
  apply (rule trans[OF corr_round_eval[where k = "- 397"]];
      simp add: np_cov_def mean_def MIN_PROFILE_def lt_ratio_def ratio_lt_def power2_eq_square)
  apply (rule trans[OF corr_round_eval[where k = "- 29"]];
      simp add: np_cov_def mean_def MIN_PROFILE_def lt_ratio_def ratio_lt_def power2_eq_square)
  apply (rule trans[OF corr_round_eval[where k = "- 69"]];
      simp add: np_cov_def mean_def MIN_PROFILE_def lt_ratio_def ratio_lt_def power2_eq_square)
  apply (rule trans[OF corr_round_eval[where k = "42"]];
      simp add: np_cov_def mean_def MIN_PROFILE_def lt_ratio_def ratio_lt_def power2_eq_square)
  apply (rule trans[OF corr_round_eval[where k = "386"]];
      simp add: np_cov_def mean_def MIN_PROFILE_def lt_ratio_def ratio_lt_def power2_eq_square)
  apply (rule trans[OF corr_round_eval[where k = "- 590"]];
      simp add: np_cov_def mean_def MIN_PROFILE_def lt_ratio_def ratio_lt_def power2_eq_square)
  apply (rule trans[OF corr_round_eval[where k = "358"]];
      simp add: np_cov_def mean_def MIN_PROFILE_def lt_ratio_def ratio_lt_def power2_eq_square)
  apply (rule trans[OF corr_round_eval[where k = "- 138"]];
      simp add: np_cov_def mean_def MIN_PROFILE_def lt_ratio_def ratio_lt_def power2_eq_square)
  apply (rule trans[OF corr_round_eval[where k = "109"]];
      simp add: np_cov_def mean_def MIN_PROFILE_def lt_ratio_def ratio_lt_def power2_eq_square)
  apply (rule trans[OF corr_round_eval[where k = "- 249"]];
      simp add: np_cov_def mean_def MIN_PROFILE_def lt_ratio_def ratio_lt_def power2_eq_square)
  by (rule trans[OF corr_round_eval[where k = "- 386"]];
      simp add: np_cov_def mean_def MIN_PROFILE_def lt_ratio_def ratio_lt_def power2_eq_square)

lemma chroma_b_corrs:
  "corrs_of chroma_b =
     [Fin 0.617, Fin (- 0.16), Fin (- 0.275), Fin 0.54, Fin (- 0.558), Fin 0.309,
      Fin (- 0.451), Fin 0.31, Fin 0.467, Fin (- 0.592), Fin 0.199, Fin (- 0.407),
      Fin 0.965, Fin (- 0.397), Fin (- 0.029), Fin (- 0.069), Fin 0.042, Fin 0.386,
      Fin (- 0.59), Fin 0.358, Fin (- 0.138), Fin 0.109, Fin (- 0.249), Fin (- 0.386)]"
  by (simp add: corrs_of_def upt_12 chroma_b_maj chroma_b_min del: One_nat_def)

lemma chroma_lengths: "length chroma_a = 12" "length chroma_b = 12"
  by (simp_all add: chroma_a_def chroma_b_def)

lemma init_chroma_a:
  "init chroma_a =
     Inr \<lparr>chroma_vals = chroma_a, keyfreqs = keyfreqs_of chroma_a,
          key_dict = zip key_names (corrs_of chroma_a),
          key = ''C major'', bestcorr = Fin 0.911,
          altkey = Some ''A minor'', altbestcorr = Some (Fin 0.885)\<rparr>"
  by (simp add: init_def Let_def chroma_lengths compute_key_correlations_keyfreqs
        chroma_a_corrs key_names_explicit dict_keys_def dict_get_def dict_item_def py_max_def
        find_alternative_key_def py_ne_def)

lemma init_chroma_b:
  "init chroma_b =
     Inr \<lparr>chroma_vals = chroma_b, keyfreqs = keyfreqs_of chroma_b,
          key_dict = zip key_names (corrs_of chroma_b),
          key = ''C minor'', bestcorr = Fin 0.965,
          altkey = None, altbestcorr = None\<rparr>"
  by (simp add: init_def Let_def chroma_lengths compute_key_correlations_keyfreqs
        chroma_b_corrs key_names_explicit dict_keys_def dict_get_def dict_item_def py_max_def
        find_alternative_key_def py_ne_def)

section \<open>The primary key\<close>

text \<open>The object that \<open>__init__\<close> leaves behind, with the index of the primary key.\<close>

lemma init_result:
  assumes "length cv = 12"
  shows "\<exists>s i. init cv = Inr s \<and> i < 24 \<and>
           key_dict s = zip key_names (corrs_of cv) \<and>
           key s = key_names ! i \<and> bestcorr s = corrs_of cv ! i \<and>
           (i = 0 \<or> py_gt (corrs_of cv ! i) (corrs_of cv ! 0)) \<and>
           (\<forall>j<24. \<not> py_gt (corrs_of cv ! j) (corrs_of cv ! i)) \<and>
           (\<forall>j<i. \<not> py_ge (corrs_of cv ! j) (corrs_of cv ! i)) \<and>
           s = alt_loop (zip key_names (corrs_of cv))
                 \<lparr>chroma_vals = cv, keyfreqs = keyfreqs_of cv,
                  key_dict = zip key_names (corrs_of cv), key = key_names ! i,
                  bestcorr = corrs_of cv ! i, altkey = None, altbestcorr = None\<rparr>"
proof -
  let ?kd = "zip key_names (corrs_of cv)"
  from init_structure[of cv] assms obtain i where i: "i < 24"
    "init cv = Inr (find_alternative_key
        \<lparr>chroma_vals = cv, keyfreqs = keyfreqs_of cv, key_dict = ?kd,
         key = key_names ! i, bestcorr = corrs_of cv ! i, altkey = None, altbestcorr = None\<rparr>)"
    "i = 0 \<or> py_gt (corrs_of cv ! i) (corrs_of cv ! 0)"
    "\<forall>j<24. \<not> py_gt (corrs_of cv ! j) (corrs_of cv ! i)"
    "\<forall>j<i. \<not> py_ge (corrs_of cv ! j) (corrs_of cv ! i)"
    by auto
  let ?start = "\<lparr>chroma_vals = cv, keyfreqs = keyfreqs_of cv, key_dict = ?kd,
         key = key_names ! i, bestcorr = corrs_of cv ! i, altkey = None, altbestcorr = None\<rparr>"
  let ?res = "alt_loop ?kd ?start"
  have "init cv = Inr ?res" using i(2) by (simp add: find_alternative_key_def)
  moreover have "key_dict ?res = ?kd" "key ?res = key_names ! i" "bestcorr ?res = corrs_of cv ! i"
    using alt_loop_frame[of ?kd ?start] by simp_all
  ultimately show ?thesis using i(1,3,4,5) by blast
qed

lemma key_dict_snd: "j < 24 \<Longrightarrow> snd (zip key_names (corrs_of cv) ! j) = corrs_of cv ! j"
  by (simp add: key_dict_nth)

lemma key_dict_fst: "j < 24 \<Longrightarrow> fst (zip key_names (corrs_of cv) ! j) = key_names ! j"
  by (simp add: key_dict_nth)

lemma key_dict_keys: "map fst (zip key_names (corrs_of cv)) = key_names"
  by (simp add: key_names_length corrs_of_length)

lemma primary_scan:
  assumes "length cv = 12"
  shows "\<exists>s i. init cv = Inr s \<and> map fst (key_dict s) = key_names \<and> i < 24 \<and>
           key_dict s ! i = (key s, bestcorr s) \<and>
           (\<forall>j<24. \<not> py_gt (snd (key_dict s ! j)) (bestcorr s)) \<and>
           (\<forall>j<i. \<not> py_ge (snd (key_dict s ! j)) (bestcorr s))"
proof -
  from init_result[OF assms] obtain s i where s: "init cv = Inr s" "i < 24"
    "key_dict s = zip key_names (corrs_of cv)"
    "key s = key_names ! i" "bestcorr s = corrs_of cv ! i"
    "\<forall>j<24. \<not> py_gt (corrs_of cv ! j) (corrs_of cv ! i)"
    "\<forall>j<i. \<not> py_ge (corrs_of cv ! j) (corrs_of cv ! i)"
    by blast
  have "key_dict s ! i = (key s, bestcorr s)" using s(2,3,4,5) by (simp add: key_dict_nth)
  moreover have "\<forall>j<24. \<not> py_gt (snd (key_dict s ! j)) (bestcorr s)"
    using s(3,5,6) by (simp add: key_dict_snd)
  moreover have "\<forall>j<i. \<not> py_ge (snd (key_dict s ! j)) (bestcorr s)"
    using s(2,3,5,7) by (simp add: key_dict_snd)
  ultimately show ?thesis using s(1,2,3) key_dict_keys by metis
qed

text \<open>
  Claim C2. For every chroma vector of twelve energies, \<open>__init__\<close> returns an object whose
  candidate list carries the 24 key names in the fixed order (major keys for roots 0 to 11,
  then minor keys for roots 0 to 11), and the primary key with its correlation is the
  candidate at an index \<open>i\<close> such that no candidate's correlation is greater than the
  primary's and no candidate before \<open>i\<close> has a correlation greater than or equal to it: the
  first candidate that attains the maximum, so that among candidates with the same maximal
  correlation the earliest one is the primary.
\<close>

theorem primary_is_first_maximal:
  assumes "length cv = 12"
  shows "\<exists>s i. init cv = Inr s \<and> map fst (key_dict s) = key_names \<and> i < 24 \<and>
           key_dict s ! i = (key s, bestcorr s) \<and>
           (\<forall>j<24. \<not> py_gt (snd (key_dict s ! j)) (bestcorr s)) \<and>
           (\<forall>j<i. \<not> py_ge (snd (key_dict s ! j)) (bestcorr s))"
  using assms by (rule primary_scan)

theorem primary_is_first_maximal_witness:
  "length chroma_a = 12 \<and>
   (\<exists>s i. init chroma_a = Inr s \<and> key s = ''C major'' \<and> bestcorr s = Fin 0.911 \<and>
      map fst (key_dict s) = key_names \<and> i < 24 \<and>
      key_dict s ! i = (''C major'', Fin 0.911) \<and>
      (\<forall>j<24. \<not> py_gt (snd (key_dict s ! j)) (Fin 0.911)) \<and>
      (\<forall>j<i. \<not> py_ge (snd (key_dict s ! j)) (Fin 0.911)))"
proof -
  have h: "length chroma_a = 12" by (simp add: chroma_a_def)
  from primary_is_first_maximal[OF h] obtain s i where s: "init chroma_a = Inr s"
    "map fst (key_dict s) = key_names" "i < 24" "key_dict s ! i = (key s, bestcorr s)"
    "\<forall>j<24. \<not> py_gt (snd (key_dict s ! j)) (bestcorr s)"
    "\<forall>j<i. \<not> py_ge (snd (key_dict s ! j)) (bestcorr s)"
    by blast
  from s(1) have "key s = ''C major''" "bestcorr s = Fin 0.911"
    unfolding init_chroma_a by auto
  with s h show ?thesis by metis
qed

section \<open>The alternate key\<close>

lemma alt_loop_cases:
  "(\<forall>i<length items. \<not> qualifies (bestcorr s) (snd (items ! i))) \<and> alt_loop items s = s \<or>
   (\<exists>i<length items. qualifies (bestcorr s) (snd (items ! i)) \<and>
       (\<forall>j<i. \<not> qualifies (bestcorr s) (snd (items ! j))) \<and>
       alt_loop items s =
         s\<lparr>altkey := Some (fst (items ! i)), altbestcorr := Some (snd (items ! i))\<rparr>)"
proof (cases "\<exists>i<length items. qualifies (bestcorr s) (snd (items ! i))")
  case False
  then have "alt_loop items s = s" by (intro alt_loop_none) blast
  with False show ?thesis by blast
next
  case True
  define i where "i = (LEAST i. i < length items \<and> qualifies (bestcorr s) (snd (items ! i)))"
  from True have i: "i < length items \<and> qualifies (bestcorr s) (snd (items ! i))"
    unfolding i_def by (elim exE, intro LeastI)
  have least: "\<forall>j<i. \<not> qualifies (bestcorr s) (snd (items ! j))"
  proof (intro allI impI notI)
    fix j assume j: "j < i" "qualifies (bestcorr s) (snd (items ! j))"
    then have "j < length items \<and> qualifies (bestcorr s) (snd (items ! j))" using i by simp
    then have "i \<le> j" unfolding i_def by (rule Least_le)
    with j(1) show False by simp
  qed
  have "alt_loop items s = s\<lparr>altkey := Some (fst (items ! i)), altbestcorr := Some (snd (items ! i))\<rparr>"
    using i least by (intro alt_loop_first) simp_all
  with i least show ?thesis by blast
qed

text \<open>The alternate after \<open>__init__\<close>, in terms of the candidate list of the object.\<close>

lemma init_alternate:
  assumes "length cv = 12"
  shows "\<exists>s i. init cv = Inr s \<and> i < 24 \<and> length (key_dict s) = 24 \<and>
           key_dict s ! i = (key s, bestcorr s) \<and> distinct (map fst (key_dict s)) \<and>
           (\<forall>j<24. \<not> py_gt (snd (key_dict s ! j)) (bestcorr s)) \<and>
           (altkey s = None \<and> altbestcorr s = None \<and>
              (\<forall>j<24. \<not> qualifies (bestcorr s) (snd (key_dict s ! j))) \<or>
            (\<exists>a<24. qualifies (bestcorr s) (snd (key_dict s ! a)) \<and>
               (\<forall>j<a. \<not> qualifies (bestcorr s) (snd (key_dict s ! j))) \<and>
               altkey s = Some (fst (key_dict s ! a)) \<and>
               altbestcorr s = Some (snd (key_dict s ! a))))"
proof -
  define kd where "kd = zip key_names (corrs_of cv)"
  from init_result[OF assms] obtain s i where s: "init cv = Inr s" "i < 24"
    "key_dict s = kd" "key s = key_names ! i" "bestcorr s = corrs_of cv ! i"
    "\<forall>j<24. \<not> py_gt (corrs_of cv ! j) (corrs_of cv ! i)"
    "s = alt_loop kd
           \<lparr>chroma_vals = cv, keyfreqs = keyfreqs_of cv, key_dict = kd, key = key_names ! i,
            bestcorr = corrs_of cv ! i, altkey = None, altbestcorr = None\<rparr>"
    unfolding kd_def by blast
  define start where "start = \<lparr>chroma_vals = cv, keyfreqs = keyfreqs_of cv, key_dict = kd,
      key = key_names ! i, bestcorr = corrs_of cv ! i, altkey = None, altbestcorr = None\<rparr>"
  have len: "length kd = 24" by (simp add: kd_def key_names_length corrs_of_length)
  have b: "bestcorr start = bestcorr s" using s(5) by (simp add: start_def)
  have st: "altkey start = None" "altbestcorr start = None" by (simp_all add: start_def)
  have s7: "s = alt_loop kd start" using s(7) by (simp add: start_def)
  have altkd: "altkey s = None \<and> altbestcorr s = None \<and>
              (\<forall>j<24. \<not> qualifies (bestcorr s) (snd (kd ! j))) \<or>
            (\<exists>a<24. qualifies (bestcorr s) (snd (kd ! a)) \<and>
               (\<forall>j<a. \<not> qualifies (bestcorr s) (snd (kd ! j))) \<and>
               altkey s = Some (fst (kd ! a)) \<and>
               altbestcorr s = Some (snd (kd ! a)))"
    using alt_loop_cases[of kd start] unfolding b len s7[symmetric]
  proof (elim disjE exE conjE)
    assume n: "\<forall>i<24. \<not> qualifies (bestcorr s) (snd (kd ! i))" and e: "s = start"
    have "altkey s = None" "altbestcorr s = None" unfolding e by (fact st)+
    with n show ?thesis by (intro disjI1 conjI)
  next
    fix a assume a: "a < 24" "qualifies (bestcorr s) (snd (kd ! a))"
      "\<forall>j<a. \<not> qualifies (bestcorr s) (snd (kd ! j))"
      and e: "s = start\<lparr>altkey := Some (fst (kd ! a)), altbestcorr := Some (snd (kd ! a))\<rparr>"
    have "altkey s = Some (fst (kd ! a))" "altbestcorr s = Some (snd (kd ! a))"
      by (subst e, simp)+
    with a show ?thesis by (intro disjI2 exI[of _ a] conjI)
  qed
  have alt: "altkey s = None \<and> altbestcorr s = None \<and>
              (\<forall>j<24. \<not> qualifies (bestcorr s) (snd (key_dict s ! j))) \<or>
            (\<exists>a<24. qualifies (bestcorr s) (snd (key_dict s ! a)) \<and>
               (\<forall>j<a. \<not> qualifies (bestcorr s) (snd (key_dict s ! j))) \<and>
               altkey s = Some (fst (key_dict s ! a)) \<and>
               altbestcorr s = Some (snd (key_dict s ! a)))"
    unfolding s(3) by (fact altkd)
  have k: "key_dict s ! i = (key s, bestcorr s)"
    using s(2,3,4,5) by (simp add: kd_def key_dict_nth)
  have m: "\<forall>j<24. \<not> py_gt (snd (key_dict s ! j)) (bestcorr s)"
    using s(3,5,6) by (simp add: kd_def key_dict_snd)
  have d: "distinct (map fst (key_dict s))"
    using s(3) key_names_distinct by (simp add: kd_def key_dict_keys)
  have l: "length (key_dict s) = 24" using s(3) len by simp
  show ?thesis
    by (rule exI[of _ s], rule exI[of _ i], intro conjI) (fact s(1) s(2) l k d m alt)+
qed

lemma not_qualifies_self: "\<not> qualifies b b"
  by (cases b) (simp_all add: qualifies_def py_ne_def)

lemma qualifies_between:
  "qualifies best c \<Longrightarrow> \<not> py_gt c best \<Longrightarrow>
   \<exists>a b. c = Fin a \<and> best = Fin b \<and> 0.9 * b < a \<and> a < b"
  by (cases best; cases c) (auto simp: qualifies_def py_ne_def mult.commute)

lemma alternate_scan:
  assumes "length cv = 12"
  shows "\<exists>s. init cv = Inr s \<and> length (key_dict s) = 24 \<and>
     (\<forall>i<24. qualifies (bestcorr s) (snd (key_dict s ! i)) \<and>
              (\<forall>j<i. \<not> qualifies (bestcorr s) (snd (key_dict s ! j))) \<longrightarrow>
          altkey s = Some (fst (key_dict s ! i)) \<and> altbestcorr s = Some (snd (key_dict s ! i))) \<and>
     ((\<forall>i<24. \<not> qualifies (bestcorr s) (snd (key_dict s ! i))) \<longrightarrow>
          altkey s = None \<and> altbestcorr s = None) \<and>
     ((\<forall>i<24. fst (key_dict s ! i) \<noteq> key s \<longrightarrow>
                \<not> py_gt (snd (key_dict s ! i)) (py_mul (bestcorr s) (Fin 0.9))) \<longrightarrow>
          altkey s = None \<and> altbestcorr s = None)"
proof -
  from init_alternate[OF assms] obtain s p where s: "init cv = Inr s" "p < 24"
    "length (key_dict s) = 24" "key_dict s ! p = (key s, bestcorr s)"
    "distinct (map fst (key_dict s))"
    and alt: "altkey s = None \<and> altbestcorr s = None \<and>
              (\<forall>j<24. \<not> qualifies (bestcorr s) (snd (key_dict s ! j))) \<or>
            (\<exists>a<24. qualifies (bestcorr s) (snd (key_dict s ! a)) \<and>
               (\<forall>j<a. \<not> qualifies (bestcorr s) (snd (key_dict s ! j))) \<and>
               altkey s = Some (fst (key_dict s ! a)) \<and>
               altbestcorr s = Some (snd (key_dict s ! a)))"
    by blast
  define q where "q = (\<lambda>i. qualifies (bestcorr s) (snd (key_dict s ! i)))"
  have alt': "altkey s = None \<and> altbestcorr s = None \<and> (\<forall>j<24. \<not> q j) \<or>
            (\<exists>a<24. q a \<and> (\<forall>j<a. \<not> q j) \<and>
               altkey s = Some (fst (key_dict s ! a)) \<and>
               altbestcorr s = Some (snd (key_dict s ! a)))"
    using alt unfolding q_def .
  have first: "altkey s = Some (fst (key_dict s ! i)) \<and> altbestcorr s = Some (snd (key_dict s ! i))"
    if i: "i < 24" "q i" "\<forall>j<i. \<not> q j" for i
    using alt'
  proof (elim disjE exE conjE)
    assume "\<forall>j<24. \<not> q j" with i show ?thesis by blast
  next
    fix a assume a: "a < 24" "q a" "\<forall>j<a. \<not> q j"
      "altkey s = Some (fst (key_dict s ! a))" "altbestcorr s = Some (snd (key_dict s ! a))"
    have "\<not> a < i" using i(3) a(2) by blast
    moreover have "\<not> i < a" using a(3) i(2) by blast
    ultimately have "a = i" by simp
    with a show ?thesis by simp
  qed
  have none: "altkey s = None \<and> altbestcorr s = None" if "\<forall>i<24. \<not> q i"
    using alt' that by blast
  have others: "\<forall>i<24. \<not> q i"
    if h: "\<forall>i<24. fst (key_dict s ! i) \<noteq> key s \<longrightarrow>
                \<not> py_gt (snd (key_dict s ! i)) (py_mul (bestcorr s) (Fin 0.9))"
  proof (intro allI impI)
    fix i :: nat assume i: "i < 24"
    show "\<not> q i"
    proof (cases "fst (key_dict s ! i) = key s")
      case False
      with h i have "\<not> py_gt (snd (key_dict s ! i)) (py_mul (bestcorr s) (Fin 0.9))" by blast
      then show ?thesis by (simp add: q_def qualifies_def)
    next
      case True
      then have e: "map fst (key_dict s) ! i = map fst (key_dict s) ! p"
        using i s(2,3,4) by simp
      have "i < length (map fst (key_dict s))" "p < length (map fst (key_dict s))"
        using i s(2,3) by simp_all
      with s(5) e have "i = p" by (simp only: nth_eq_iff_index_eq)
      then show ?thesis using s(4) by (simp add: q_def not_qualifies_self)
    qed
  qed
  show ?thesis
  proof (rule exI[of _ s], intro conjI)
    show "init cv = Inr s" by (fact s(1))
    show "length (key_dict s) = 24" by (fact s(3))
    show "\<forall>i<24. qualifies (bestcorr s) (snd (key_dict s ! i)) \<and>
              (\<forall>j<i. \<not> qualifies (bestcorr s) (snd (key_dict s ! j))) \<longrightarrow>
          altkey s = Some (fst (key_dict s ! i)) \<and> altbestcorr s = Some (snd (key_dict s ! i))"
      using first unfolding q_def by blast
    show "(\<forall>i<24. \<not> qualifies (bestcorr s) (snd (key_dict s ! i))) \<longrightarrow>
          altkey s = None \<and> altbestcorr s = None"
      using none unfolding q_def by blast
    show "(\<forall>i<24. fst (key_dict s ! i) \<noteq> key s \<longrightarrow>
                \<not> py_gt (snd (key_dict s ! i)) (py_mul (bestcorr s) (Fin 0.9))) \<longrightarrow>
          altkey s = None \<and> altbestcorr s = None"
      using others none by blast
  qed
qed

lemma alternate_bounds:
  assumes "length cv = 12"
  shows "\<exists>s. init cv = Inr s \<and>
     (altkey s \<noteq> None \<longrightarrow>
        (\<exists>a b. altbestcorr s = Some (Fin a) \<and> bestcorr s = Fin b \<and> 0.9 * b < a \<and> a < b)) \<and>
     (\<forall>b. bestcorr s = Fin b \<and> b \<le> 0 \<longrightarrow> altkey s = None \<and> altbestcorr s = None)"
proof -
  from init_alternate[OF assms] obtain s p where s: "init cv = Inr s"
    "\<forall>j<24. \<not> py_gt (snd (key_dict s ! j)) (bestcorr s)"
    and alt: "altkey s = None \<and> altbestcorr s = None \<and>
              (\<forall>j<24. \<not> qualifies (bestcorr s) (snd (key_dict s ! j))) \<or>
            (\<exists>a<24. qualifies (bestcorr s) (snd (key_dict s ! a)) \<and>
               (\<forall>j<a. \<not> qualifies (bestcorr s) (snd (key_dict s ! j))) \<and>
               altkey s = Some (fst (key_dict s ! a)) \<and>
               altbestcorr s = Some (snd (key_dict s ! a)))"
    by blast
  have between: "\<exists>a b. altbestcorr s = Some (Fin a) \<and> bestcorr s = Fin b \<and> 0.9 * b < a \<and> a < b"
    if "altkey s \<noteq> None"
    using alt
  proof (elim disjE exE conjE)
    assume "altkey s = None" with that show ?thesis by simp
  next
    fix i assume i: "i < 24" "qualifies (bestcorr s) (snd (key_dict s ! i))"
      "altbestcorr s = Some (snd (key_dict s ! i))"
    from s(2) i(1) have "\<not> py_gt (snd (key_dict s ! i)) (bestcorr s)" by blast
    from qualifies_between[OF i(2) this] i(3) show ?thesis by auto
  qed
  have nonpos: "altkey s = None \<and> altbestcorr s = None" if b: "bestcorr s = Fin b" "b \<le> 0" for b
  proof (cases "altkey s = None")
    case True
    with alt show ?thesis by auto
  next
    case False
    from between[OF False] b show ?thesis by auto
  qed
  show ?thesis
    using s(1) between nonpos by (intro exI[of _ s]) blast
qed

lemma chroma_a_object:
  assumes "init chroma_a = Inr s"
  shows "key_dict s = zip key_names (corrs_of chroma_a)" "key s = ''C major''"
    "bestcorr s = Fin 0.911" "altkey s = Some ''A minor''" "altbestcorr s = Some (Fin 0.885)"
  using assms unfolding init_chroma_a by auto

lemma chroma_b_object:
  assumes "init chroma_b = Inr s"
  shows "key_dict s = zip key_names (corrs_of chroma_b)" "key s = ''C minor''"
    "bestcorr s = Fin 0.965" "altkey s = None" "altbestcorr s = None"
  using assms unfolding init_chroma_b by auto

lemma chroma_a_first_qualifying:
  "snd (zip key_names (corrs_of chroma_a) ! 21) = Fin 0.885"
  "fst (zip key_names (corrs_of chroma_a) ! 21) = ''A minor''"
  "qualifies (Fin 0.911) (Fin 0.885)"
  "\<forall>j<21. \<not> qualifies (Fin 0.911) (snd (zip key_names (corrs_of chroma_a) ! j))"
proof -
  have "snd (zip key_names (corrs_of chroma_a) ! 21) = corrs_of chroma_a ! 21"
    by (simp add: key_dict_snd)
  also have "\<dots> = Fin 0.885" by (simp add: chroma_a_corrs)
  finally show "snd (zip key_names (corrs_of chroma_a) ! 21) = Fin 0.885" .
  have "fst (zip key_names (corrs_of chroma_a) ! 21) = key_names ! 21"
    by (simp add: key_dict_fst)
  also have "\<dots> = ''A minor''" by (simp add: key_names_explicit)
  finally show "fst (zip key_names (corrs_of chroma_a) ! 21) = ''A minor''" .
  show "qualifies (Fin 0.911) (Fin 0.885)" by (simp add: qualifies_def py_ne_def)
  have "list_all (\<lambda>c. \<not> qualifies (Fin 0.911) c) (take 21 (corrs_of chroma_a))"
    by (simp add: chroma_a_corrs qualifies_def py_ne_def)
  then have "\<forall>j<21. \<not> qualifies (Fin 0.911) (corrs_of chroma_a ! j)"
    by (simp add: list_all_length corrs_of_length)
  then show "\<forall>j<21. \<not> qualifies (Fin 0.911) (snd (zip key_names (corrs_of chroma_a) ! j))"
    by (simp add: key_dict_snd)
qed

text \<open>
  Claim C3. For every chroma vector of twelve energies, the alternate reported by
  \<open>__init__\<close> is the first candidate of the fixed enumeration order, counted from the first
  entry \<open>C major\<close>, whose correlation is greater than \<open>bestcorr * 0.9\<close> and not equal to
  \<open>bestcorr\<close> (the test \<open>qualifies\<close>); when no candidate passes the test, and in particular
  when no candidate other than the primary has a correlation greater than \<open>bestcorr * 0.9\<close>,
  \<open>altkey\<close> and \<open>altbestcorr\<close> stay \<open>None\<close>.
\<close>

theorem alternate_is_first_qualifying:
  assumes "length cv = 12"
  shows "\<exists>s. init cv = Inr s \<and> length (key_dict s) = 24 \<and>
     (\<forall>i<24. qualifies (bestcorr s) (snd (key_dict s ! i)) \<and>
              (\<forall>j<i. \<not> qualifies (bestcorr s) (snd (key_dict s ! j))) \<longrightarrow>
          altkey s = Some (fst (key_dict s ! i)) \<and> altbestcorr s = Some (snd (key_dict s ! i))) \<and>
     ((\<forall>i<24. \<not> qualifies (bestcorr s) (snd (key_dict s ! i))) \<longrightarrow>
          altkey s = None \<and> altbestcorr s = None) \<and>
     ((\<forall>i<24. fst (key_dict s ! i) \<noteq> key s \<longrightarrow>
                \<not> py_gt (snd (key_dict s ! i)) (py_mul (bestcorr s) (Fin 0.9))) \<longrightarrow>
          altkey s = None \<and> altbestcorr s = None)"
  using assms by (rule alternate_scan)

theorem alternate_is_first_qualifying_witness:
  "length chroma_a = 12 \<and>
   (\<exists>s. init chroma_a = Inr s \<and> bestcorr s = Fin 0.911 \<and>
      qualifies (bestcorr s) (snd (key_dict s ! 21)) \<and>
      (\<forall>j<21. \<not> qualifies (bestcorr s) (snd (key_dict s ! j))) \<and>
      altkey s = Some (fst (key_dict s ! 21)) \<and> altbestcorr s = Some (snd (key_dict s ! 21)) \<and>
      fst (key_dict s ! 21) = ''A minor'' \<and> snd (key_dict s ! 21) = Fin 0.885)"
proof -
  have h: "length chroma_a = 12" by (simp add: chroma_a_def)
  from alternate_is_first_qualifying[OF h] obtain s where s: "init chroma_a = Inr s"
    and first: "\<forall>i<24. qualifies (bestcorr s) (snd (key_dict s ! i)) \<and>
              (\<forall>j<i. \<not> qualifies (bestcorr s) (snd (key_dict s ! j))) \<longrightarrow>
          altkey s = Some (fst (key_dict s ! i)) \<and> altbestcorr s = Some (snd (key_dict s ! i))"
    by blast
  note o = chroma_a_object[OF s]
  have q: "qualifies (bestcorr s) (snd (key_dict s ! 21))"
    "\<forall>j<21. \<not> qualifies (bestcorr s) (snd (key_dict s ! j))"
    unfolding o(1) o(3) using chroma_a_first_qualifying by simp_all
  with first have "altkey s = Some (fst (key_dict s ! 21)) \<and>
      altbestcorr s = Some (snd (key_dict s ! 21))" by simp
  moreover have "fst (key_dict s ! 21) = ''A minor''" "snd (key_dict s ! 21) = Fin 0.885"
    unfolding o(1) by (fact chroma_a_first_qualifying)+
  ultimately show ?thesis using h s q o(3) by blast
qed

text \<open>
  Claim C9. For every chroma vector of twelve energies, whenever \<open>__init__\<close> reports an
  alternate key, its correlation and the primary's are numbers with
  \<open>0.9 * bestcorr < altbestcorr < bestcorr\<close>; and when the primary correlation is zero or
  negative, no alternate is reported.
\<close>

theorem alternate_strictly_between:
  assumes "length cv = 12"
  shows "\<exists>s. init cv = Inr s \<and>
     (altkey s \<noteq> None \<longrightarrow>
        (\<exists>a b. altbestcorr s = Some (Fin a) \<and> bestcorr s = Fin b \<and> 0.9 * b < a \<and> a < b)) \<and>
     (\<forall>b. bestcorr s = Fin b \<and> b \<le> 0 \<longrightarrow> altkey s = None \<and> altbestcorr s = None)"
  using assms by (rule alternate_bounds)

theorem alternate_strictly_between_witness:
  "length chroma_a = 12 \<and>
   (\<exists>s. init chroma_a = Inr s \<and> altkey s = Some ''A minor'' \<and> altkey s \<noteq> None \<and>
      altbestcorr s = Some (Fin 0.885) \<and> bestcorr s = Fin 0.911 \<and>
      (\<exists>a b. altbestcorr s = Some (Fin a) \<and> bestcorr s = Fin b \<and> 0.9 * b < a \<and> a < b))"
proof -
  have h: "length chroma_a = 12" by (simp add: chroma_a_def)
  from alternate_strictly_between[OF h] obtain s where s: "init chroma_a = Inr s"
    and b: "altkey s \<noteq> None \<longrightarrow>
        (\<exists>a b. altbestcorr s = Some (Fin a) \<and> bestcorr s = Fin b \<and> 0.9 * b < a \<and> a < b)"
    by blast
  note o = chroma_a_object[OF s]
  from o(4) have "altkey s \<noteq> None" by simp
  with b o h s show ?thesis by blast
qed

section \<open>Reporting with context\<close>

lemma init_key_shape:
  assumes "length cv = 12" "init cv = Inr s"
  shows "key_dict s = zip key_names (corrs_of cv)"
    and "\<exists>i<24. key s = key_names ! i \<and> bestcorr s = corrs_of cv ! i"
proof -
  from init_result[OF assms(1)] obtain s' i where s': "init cv = Inr s'" "i < 24"
    "key_dict s' = zip key_names (corrs_of cv)" "key s' = key_names ! i"
    "bestcorr s' = corrs_of cv ! i"
    by blast
  from s'(1) assms(2) have e: "s' = s" by simp
  show "key_dict s = zip key_names (corrs_of cv)" using s'(3) e by simp
  show "\<exists>i<24. key s = key_names ! i \<and> bestcorr s = corrs_of cv ! i"
    using s'(2,4,5) e by blast
qed

lemma key_names_cases:
  assumes "i < 24"
  shows "(\<exists>r<12. key_names ! i = PITCHES ! r @ '' major'') \<or>
         (\<exists>r<12. key_names ! i = PITCHES ! r @ '' minor'')"
proof (cases "i < 12")
  case True
  then show ?thesis using major_key_parts by blast
next
  case False
  then have "i - 12 < 12" "i = 12 + (i - 12)" using assms by simp_all
  then show ?thesis using major_key_parts by metis
qed

lemma major_minor_distinct:
  "r < 12 \<Longrightarrow> r' < 12 \<Longrightarrow> PITCHES ! r @ '' major'' \<noteq> PITCHES ! r' @ '' minor''"
  using major_key_parts minor_key_no_major by metis

text \<open>The call on an object made by \<open>__init__\<close> raises nothing.\<close>

lemma get_key_with_context_total:
  assumes "length cv = 12" "init cv = Inr s"
  shows "\<exists>res. get_key_with_context s prefer_minor threshold = Inr (res, s)"
proof -
  note shape = init_key_shape[OF assms]
  from shape(2) obtain i where i: "i < 24" "key s = key_names ! i" by blast
  show ?thesis
  proof (cases "prefer_minor \<and> str_contains ''major'' (key s)")
    case False
    then show ?thesis using get_key_with_context_plain by blast
  next
    case True
    from key_names_cases[OF i(1)] i(2) True minor_key_no_major
    obtain r where r: "r < 12" "key s = PITCHES ! r @ '' major''" by metis
    have "get_key_with_context s True threshold =
           (if py_gt (corrs_of cv ! (12 + nat ((int r - 3) mod 12))) (py_mul (bestcorr s) threshold)
            then Inr ((PITCHES ! nat ((int r - 3) mod 12) @ '' minor'',
                       corrs_of cv ! (12 + nat ((int r - 3) mod 12))), s)
            else Inr ((key s, bestcorr s), s))"
      using r shape(1) by (intro get_key_with_context_major) (simp_all add: corrs_of_length)
    with True show ?thesis by (cases "py_gt (corrs_of cv ! (12 + nat ((int r - 3) mod 12))) (py_mul (bestcorr s) threshold)") simp_all
  qed
qed

lemma chroma_a_init_projr: "init chroma_a = Inr (projr (init chroma_a))"
  by (simp add: init_chroma_a)

lemma chroma_b_init_projr: "init chroma_b = Inr (projr (init chroma_b))"
  by (simp add: init_chroma_b)

lemma chroma_a_relative_minor:
  "dict_get (zip key_names (corrs_of chroma_a)) ''A minor'' = Some (Fin 0.885)"
proof -
  have "dict_get (zip key_names (corrs_of chroma_a)) (key_names ! 21) = Some (corrs_of chroma_a ! 21)"
    by (rule key_dict_get) simp
  moreover have "key_names ! 21 = ''A minor''" by (simp add: key_names_explicit)
  moreover have "corrs_of chroma_a ! 21 = Fin 0.885" by (simp add: chroma_a_corrs)
  ultimately show ?thesis by simp
qed

text \<open>
  Claim C8. For every chroma vector of twelve energies and every choice of \<open>prefer_minor\<close>
  and \<open>threshold\<close>, \<open>get_key_with_context\<close> on the object made by \<open>__init__\<close> returns a
  result, and the object after the call is the object before it: the primary key, its
  correlation, the alternate key, its correlation and the dictionary of the 24 candidates
  are the same.
\<close>

theorem get_key_with_context_frame:
  assumes "length cv = 12" and "init cv = Inr s"
  shows "\<exists>res s'. get_key_with_context s prefer_minor threshold = Inr (res, s') \<and>
           key s' = key s \<and> bestcorr s' = bestcorr s \<and>
           altkey s' = altkey s \<and> altbestcorr s' = altbestcorr s \<and>
           key_dict s' = key_dict s \<and> length (key_dict s') = 24 \<and> s' = s"
proof -
  from get_key_with_context_total[OF assms] obtain res
    where "get_key_with_context s prefer_minor threshold = Inr (res, s)" by blast
  moreover have "length (key_dict s) = 24"
    using init_key_shape(1)[OF assms] by (simp add: key_names_length corrs_of_length)
  ultimately show ?thesis by blast
qed

theorem get_key_with_context_frame_witness:
  "length chroma_a = 12 \<and> init chroma_a = Inr (projr (init chroma_a)) \<and>
   (\<exists>res s'. get_key_with_context (projr (init chroma_a)) True (Fin 0.9) = Inr (res, s') \<and>
      key s' = ''C major'' \<and> bestcorr s' = Fin 0.911 \<and>
      altkey s' = Some ''A minor'' \<and> altbestcorr s' = Some (Fin 0.885) \<and>
      key_dict s' = key_dict (projr (init chroma_a)) \<and> length (key_dict s') = 24)"
proof -
  have h: "length chroma_a = 12" by (simp add: chroma_a_def)
  note o = chroma_a_object[OF chroma_a_init_projr]
  from get_key_with_context_frame[OF h chroma_a_init_projr, of True "Fin 0.9"] o h
    chroma_a_init_projr
  show ?thesis by metis
qed

text \<open>
  Claim C10. For every chroma vector of twelve energies and every threshold,
  \<open>get_key_with_context\<close> with \<open>prefer_minor = False\<close> returns the stored primary key and
  its correlation, and so it does with \<open>prefer_minor = True\<close> when the stored primary key is
  a minor key.
\<close>

theorem get_key_with_context_identity:
  assumes "length cv = 12" and "init cv = Inr s"
  shows "get_key_with_context s False threshold = Inr ((key s, bestcorr s), s) \<and>
         ((\<exists>r<12. key s = PITCHES ! r @ '' minor'') \<longrightarrow>
            get_key_with_context s True threshold = Inr ((key s, bestcorr s), s))"
proof (intro conjI impI)
  show "get_key_with_context s False threshold = Inr ((key s, bestcorr s), s)"
    by (rule get_key_with_context_plain) simp
next
  assume "\<exists>r<12. key s = PITCHES ! r @ '' minor''"
  then have "\<not> str_contains ''major'' (key s)" using minor_key_no_major by auto
  then show "get_key_with_context s True threshold = Inr ((key s, bestcorr s), s)"
    by (intro get_key_with_context_plain) simp
qed

theorem get_key_with_context_identity_witness:
  "length chroma_b = 12 \<and> init chroma_b = Inr (projr (init chroma_b)) \<and>
   (\<exists>r<12. key (projr (init chroma_b)) = PITCHES ! r @ '' minor'') \<and>
   get_key_with_context (projr (init chroma_b)) False (Fin 0.9)
     = Inr ((''C minor'', Fin 0.965), projr (init chroma_b)) \<and>
   get_key_with_context (projr (init chroma_b)) True (Fin 0.9)
     = Inr ((''C minor'', Fin 0.965), projr (init chroma_b))"
proof -
  have h: "length chroma_b = 12" by (simp add: chroma_b_def)
  note o = chroma_b_object[OF chroma_b_init_projr]
  have "key (projr (init chroma_b)) = PITCHES ! 0 @ '' minor''"
    unfolding o(2) by (simp add: PITCHES_def)
  then have m: "\<exists>r<12. key (projr (init chroma_b)) = PITCHES ! r @ '' minor''"
    by (intro exI[of _ 0]) simp
  from get_key_with_context_identity[OF h chroma_b_init_projr, of "Fin 0.9"] m
  show ?thesis using h chroma_b_init_projr unfolding o(2) o(3) by blast
qed

section \<open>The range of the correlations\<close>

lemma corrcoef_10_range:
  "corrcoef_10 xs ys = NaN \<or> (\<exists>c. corrcoef_10 xs ys = Fin c \<and> - 1 \<le> c \<and> c \<le> 1)"
  by (auto simp: corrcoef_10_def Let_def)

lemma py_round3_range:
  assumes "- 1 \<le> c" "c \<le> 1"
  shows "\<exists>c'. py_round3 (Fin c) = Fin c' \<and> - 1 \<le> c' \<and> c' \<le> 1"
proof -
  have "c * 1000 \<le> of_int 1000" using assms(2) by simp
  then have hi: "rint (c * 1000) \<le> 1000" by (rule rint_le)
  have "of_int (- 1000) \<le> c * 1000" using assms(1) by simp
  then have lo: "- 1000 \<le> rint (c * 1000)" by (rule rint_ge)
  have "real_of_int (rint (c * 1000)) \<le> 1000" "- 1000 \<le> real_of_int (rint (c * 1000))"
    using hi lo by linarith+
  then have "- 1 \<le> real_of_int (rint (c * 1000)) / 1000" "real_of_int (rint (c * 1000)) / 1000 \<le> 1"
    by simp_all
  then show ?thesis by (intro exI[of _ "real_of_int (rint (c * 1000)) / 1000"]) simp
qed

lemma rounded_corr_range:
  "py_round3 (corrcoef_10 xs ys) = NaN \<or>
   (\<exists>c. py_round3 (corrcoef_10 xs ys) = Fin c \<and> - 1 \<le> c \<and> c \<le> 1)"
  using corrcoef_10_range[of xs ys] py_round3_range by (elim disjE exE conjE) auto

lemma corrs_of_nth:
  "r < 12 \<Longrightarrow> corrs_of cv ! r = maj_corr_at cv r"
  "r < 12 \<Longrightarrow> corrs_of cv ! (12 + r) = min_corr_at cv r"
  by (simp_all add: corrs_of_def nth_append)

lemma corrs_of_range:
  assumes "j < 24"
  shows "corrs_of cv ! j = NaN \<or> (\<exists>c. corrs_of cv ! j = Fin c \<and> - 1 \<le> c \<and> c \<le> 1)"
proof (cases "j < 12")
  case True
  then show ?thesis
    using rounded_corr_range[of MAJ_PROFILE "spec_rotated cv j"]
    by (simp add: corrs_of_nth maj_corr_at_def)
next
  case False
  then have j: "j - 12 < 12" "j = 12 + (j - 12)" using assms by simp_all
  have "corrs_of cv ! (12 + (j - 12)) = min_corr_at cv (j - 12)"
    using j(1) by (rule corrs_of_nth)
  then show ?thesis
    using rounded_corr_range[of MIN_PROFILE "spec_rotated cv (j - 12)"] j(2)
    by (simp add: min_corr_at_def)
qed

lemma profile_variance: "0 < np_cov MAJ_PROFILE MAJ_PROFILE" "0 < np_cov MIN_PROFILE MIN_PROFILE"
  by (simp_all add: np_cov_def mean_def MAJ_PROFILE_def MIN_PROFILE_def)

lemma profile_length: "length MAJ_PROFILE = 12" "length MIN_PROFILE = 12"
  by (simp_all add: MAJ_PROFILE_def MIN_PROFILE_def)

lemma corrcoef_10_self:
  assumes "0 < np_cov xs xs"
  shows "corrcoef_10 xs xs = Fin 1"
proof -
  have "sqrt (np_cov xs xs * np_cov xs xs) = np_cov xs xs"
    using assms by (simp add: real_sqrt_mult)
  then show ?thesis using assms by (simp add: corrcoef_10_pos)
qed

lemma spec_rotated_0: "length cv = 12 \<Longrightarrow> spec_rotated cv 0 = cv"
proof -
  assume l: "length cv = 12"
  have "map (\<lambda>m. cv ! ((0 + m) mod 12)) [0..<12] = map (\<lambda>m. cv ! m) [0..<12]"
    by (rule map_cong[OF refl]) simp
  also have "\<dots> = cv" using map_nth[of cv] l by simp
  finally show ?thesis by (simp only: spec_rotated_def)
qed

lemma golden_major:
  "\<exists>s. init MAJ_PROFILE = Inr s \<and> key s = ''C major'' \<and> bestcorr s = Fin 1"
proof -
  have first: "corrs_of MAJ_PROFILE ! 0 = Fin 1"
  proof -
    have "corrs_of MAJ_PROFILE ! 0 = maj_corr_at MAJ_PROFILE 0" by (rule corrs_of_nth) simp
    also have "\<dots> = py_round3 (corrcoef_10 MAJ_PROFILE MAJ_PROFILE)"
      by (simp add: maj_corr_at_def spec_rotated_0 profile_length)
    also have "\<dots> = py_round3 (Fin 1)" by (simp only: corrcoef_10_self[OF profile_variance(1)])
    also have "\<dots> = Fin 1" using rint_of_int[of 1000] by simp
    finally show ?thesis .
  qed
  from init_result[OF profile_length(1)] obtain s i where s: "init MAJ_PROFILE = Inr s" "i < 24"
    "key s = key_names ! i" "bestcorr s = corrs_of MAJ_PROFILE ! i"
    "i = 0 \<or> py_gt (corrs_of MAJ_PROFILE ! i) (corrs_of MAJ_PROFILE ! 0)"
    by blast
  have "\<not> py_gt (corrs_of MAJ_PROFILE ! i) (Fin 1)"
    using corrs_of_range[OF s(2), of MAJ_PROFILE] by auto
  with s(5) first have i0: "i = 0" by simp
  have "key s = ''C major''" using s(3) i0 by (simp add: key_names_explicit)
  moreover have "bestcorr s = Fin 1" using s(4) i0 first by simp
  ultimately show ?thesis using s(1) by blast
qed

text \<open>
  Claim C5. When the aggregated chroma energies are the major profile itself, with index 0
  at root C, \<open>__init__\<close> returns an object whose primary key is \<open>C major\<close> and whose
  correlation is within 0.001 of 1 (it is 1).
\<close>

theorem major_profile_gives_C_major:
  "\<exists>s c. init MAJ_PROFILE = Inr s \<and> key s = ''C major'' \<and> bestcorr s = Fin c \<and>
          \<bar>c - 1\<bar> \<le> 0.001 \<and> c = 1"
  using golden_major by auto

lemma spec_rotated_length: "length (spec_rotated cv r) = 12"
  by (simp add: spec_rotated_def)

section \<open>The coefficient of the specification\<close>

lemma cauchy_schwarz_step:
  fixes a b S A B :: real
  assumes "S\<^sup>2 \<le> A * B" "0 \<le> A" "0 \<le> B"
  shows "(a * b + S)\<^sup>2 \<le> (a\<^sup>2 + A) * (b\<^sup>2 + B)"
proof -
  have "0 \<le> (a\<^sup>2 * B - b\<^sup>2 * A)\<^sup>2" by simp
  then have "4 * (a\<^sup>2 * B) * (b\<^sup>2 * A) \<le> (a\<^sup>2 * B + b\<^sup>2 * A)\<^sup>2"
    by (simp add: power2_eq_square algebra_simps)
  moreover have "(2 * a * b * S)\<^sup>2 \<le> 4 * (a\<^sup>2 * B) * (b\<^sup>2 * A)"
  proof -
    have "(2 * a * b * S)\<^sup>2 = 4 * (a\<^sup>2 * b\<^sup>2) * S\<^sup>2" by (simp add: power2_eq_square)
    also have "\<dots> \<le> 4 * (a\<^sup>2 * b\<^sup>2) * (A * B)"
      using assms(1) by (intro mult_left_mono) simp_all
    also have "\<dots> = 4 * (a\<^sup>2 * B) * (b\<^sup>2 * A)" by simp
    finally show ?thesis .
  qed
  ultimately have "(2 * a * b * S)\<^sup>2 \<le> (a\<^sup>2 * B + b\<^sup>2 * A)\<^sup>2" by linarith
  moreover have "0 \<le> a\<^sup>2 * B + b\<^sup>2 * A" using assms(2,3) by simp
  ultimately have "2 * a * b * S \<le> a\<^sup>2 * B + b\<^sup>2 * A"
    by (rule power2_le_imp_le)
  then show ?thesis using assms(1) by (simp add: power2_eq_square algebra_simps)
qed

lemma cauchy_schwarz_lists:
  fixes xs ys :: "real list"
  assumes "length xs = length ys"
  shows "(sum_list (map2 (*) xs ys))\<^sup>2 \<le> sum_list (map (\<lambda>x. x\<^sup>2) xs) * sum_list (map (\<lambda>y. y\<^sup>2) ys)"
  using assms
proof (induction xs ys rule: list_induct2)
  case Nil
  then show ?case by simp
next
  case (Cons x xs y ys)
  have "0 \<le> sum_list (map (\<lambda>x. x\<^sup>2) xs)" "0 \<le> sum_list (map (\<lambda>y. y\<^sup>2) ys)"
    by (rule sum_list_nonneg, auto)+
  from cauchy_schwarz_step[OF Cons.IH this, of x y] show ?case by simp
qed

lemma deviations_cauchy_schwarz:
  fixes xs ys :: "real list"
  assumes "length xs = length ys"
  shows "(sum_list (map2 (\<lambda>x y. (x - a) * (y - b)) xs ys))\<^sup>2
           \<le> sum_list (map (\<lambda>x. (x - a)\<^sup>2) xs) * sum_list (map (\<lambda>y. (y - b)\<^sup>2) ys)"
proof -
  have "length (map (\<lambda>x. x - a) xs) = length (map (\<lambda>y. y - b) ys)" using assms by simp
  from cauchy_schwarz_lists[OF this] show ?thesis
    by (simp add: zip_map_map o_def split_def)
qed

lemma clip_ratio:
  fixes S A B :: real
  assumes "S\<^sup>2 \<le> A * B" "0 < A * B"
  shows "min (max (S / sqrt (A * B)) (- 1)) 1 = S / sqrt (A * B)"
proof -
  have s: "0 < sqrt (A * B)" using assms(2) by simp
  have "S \<le> sqrt (A * B)" using assms(1) by (rule real_le_rsqrt)
  moreover have "(- S)\<^sup>2 \<le> A * B" using assms(1) by simp
  then have "- S \<le> sqrt (A * B)" by (rule real_le_rsqrt)
  ultimately have "S / sqrt (A * B) \<le> 1" "- 1 \<le> S / sqrt (A * B)"
    using s by (simp_all add: pos_divide_le_eq pos_le_divide_eq)
  then show ?thesis by simp
qed

text \<open>Computed without rounding error, the coefficient of \<open>np.corrcoef\<close> is the Pearson
  correlation coefficient of the specification, NaN included.\<close>

lemma corrcoef_10_pearson:
  assumes "length xs = length ys" "2 \<le> length xs"
  shows "corrcoef_10 xs ys = spec_pearson ys xs"
proof -
  define n1 where "n1 = real (length xs) - 1"
  define A where "A = sum_list (map (\<lambda>y. (y - mean ys)\<^sup>2) ys)"
  define B where "B = sum_list (map (\<lambda>x. (x - mean xs)\<^sup>2) xs)"
  define S where "S = sum_list (map2 (\<lambda>y x. (y - mean ys) * (x - mean xs)) ys xs)"
  have n1: "0 < n1" using assms(2) by (simp add: n1_def)
  have cov: "np_cov ys ys = A / n1" "np_cov xs xs = B / n1" "np_cov ys xs = S / n1"
    using assms(1) by (simp_all add: np_cov_self np_cov_def A_def B_def S_def n1_def)
  have nn: "0 \<le> A" "0 \<le> B" unfolding A_def B_def by (rule sumsq_nonneg)+
  have cs: "S\<^sup>2 \<le> A * B"
    unfolding S_def A_def B_def using assms(1) by (intro deviations_cauchy_schwarz) simp
  have sp: "spec_pearson ys xs = (if A = 0 \<or> B = 0 then NaN else Fin (S / sqrt (A * B)))"
    by (simp add: spec_pearson_def Let_def A_def B_def S_def)
  show ?thesis
  proof (cases "A = 0 \<or> B = 0")
    case True
    then have "sqrt (np_cov ys ys) = 0 \<or> sqrt (np_cov xs xs) = 0" using cov by auto
    then have "corrcoef_10 xs ys = NaN"
      by (auto simp: corrcoef_10_def Let_def)
    with True sp show ?thesis by simp
  next
    case False
    then have pos: "0 < A" "0 < B" using nn by simp_all
    then have vpos: "0 < np_cov xs xs" "0 < np_cov ys ys" using cov n1 by simp_all
    have "sqrt (np_cov xs xs * np_cov ys ys) = sqrt (A * B) / n1"
    proof -
      have "np_cov xs xs * np_cov ys ys = (A * B) / n1\<^sup>2"
        by (simp add: cov power2_eq_square)
      then show ?thesis using n1 by (simp add: real_sqrt_divide)
    qed
    then have "np_cov ys xs / sqrt (np_cov xs xs * np_cov ys ys) = S / sqrt (A * B)"
      using n1 by (simp add: cov)
    then have "corrcoef_10 xs ys = Fin (min (max (S / sqrt (A * B)) (- 1)) 1)"
      using vpos by (simp add: corrcoef_10_pos)
    also have "\<dots> = Fin (S / sqrt (A * B))"
      using clip_ratio[OF cs] pos by simp
    finally show ?thesis using False sp by simp
  qed
qed

lemma rint_near: "\<bar>of_int (rint x) - x\<bar> \<le> 1 / 2"
  unfolding rint_def Let_def by (auto; linarith)

lemma py_round3_nearest:
  "\<exists>k::int. py_round3 (Fin p) = Fin (of_int k / 1000) \<and> \<bar>of_int k / 1000 - p\<bar> \<le> 1 / 2000"
proof -
  have "\<bar>of_int (rint (p * 1000)) - p * 1000\<bar> \<le> 1 / 2" by (rule rint_near)
  then have "\<bar>of_int (rint (p * 1000)) / 1000 - p\<bar> \<le> 1 / 2000"
    unfolding abs_le_iff by (simp add: field_simps)
  then show ?thesis by (intro exI[of _ "rint (p * 1000)"]) simp
qed

section \<open>The methods on a machine\<close>

lemma exact_ops:
  "m_corrcoef_10 exact = corrcoef_10" "m_round3 exact = py_round3" "m_mul exact = py_mul"
  by (simp_all add: exact_def)

lemma corr_loop_on_exact: "corr_loop_on exact kf is majs mins = corr_loop kf is majs mins"
  by (induction "is" arbitrary: majs mins) (simp_all add: exact_ops split: sum.splits)

lemma alt_loop_on_exact: "alt_loop_on exact items s = alt_loop items s"
proof (induction items)
  case Nil
  then show ?case by simp
next
  case (Cons x items)
  obtain k c where "x = (k, c)" by (cases x)
  with Cons show ?case by (simp add: exact_ops)
qed

lemma find_alternative_key_on_exact: "find_alternative_key_on exact s = find_alternative_key s"
  by (simp add: find_alternative_key_on_def find_alternative_key_def alt_loop_on_exact)

lemma compute_key_correlations_on_exact:
  "compute_key_correlations_on exact kf = compute_key_correlations kf"
  by (simp add: compute_key_correlations_on_def compute_key_correlations_def corr_loop_on_exact)

lemma init_on_exact: "init_on exact cv = init cv"
  unfolding init_on_def init_def
  by (simp only: find_alternative_key_on_exact compute_key_correlations_on_exact)

lemma get_key_with_context_on_exact:
  "get_key_with_context_on exact s prefer_minor threshold
     = get_key_with_context s prefer_minor threshold"
  unfolding get_key_with_context_on_def get_key_with_context_def
  by (simp only: exact_ops)

lemma corrs_on_exact: "corrs_on exact cv = corrs_of cv"
  by (simp add: corrs_on_def corrs_of_def maj_corr_at_def min_corr_at_def exact_ops)

lemma corrs_on_length: "length (corrs_on M cv) = 24"
  by (simp add: corrs_on_def)

lemma corrs_on_nth:
  "r < 12 \<Longrightarrow> corrs_on M cv ! r = m_round3 M (m_corrcoef_10 M MAJ_PROFILE (spec_rotated cv r))"
  "r < 12 \<Longrightarrow> corrs_on M cv ! (12 + r)
                = m_round3 M (m_corrcoef_10 M MIN_PROFILE (spec_rotated cv r))"
  by (simp_all add: corrs_on_def nth_append)

lemma corr_loop_on_keyfreqs:
  "corr_loop_on M (keyfreqs_of cv) is majs mins =
     Inr (majs @ map (\<lambda>i. m_round3 M (m_corrcoef_10 M MAJ_PROFILE (spec_rotated cv i))) is,
          mins @ map (\<lambda>i. m_round3 M (m_corrcoef_10 M MIN_PROFILE (spec_rotated cv i))) is)"
  by (induction "is" arbitrary: majs mins) (simp_all add: key_test_keyfreqs np_array_Some)

lemma compute_key_correlations_on_keyfreqs:
  "compute_key_correlations_on M (keyfreqs_of cv) = Inr (zip key_names (corrs_on M cv))"
proof -
  let ?majs = "map (\<lambda>i. m_round3 M (m_corrcoef_10 M MAJ_PROFILE (spec_rotated cv i))) [0..<12]"
  let ?mins = "map (\<lambda>i. m_round3 M (m_corrcoef_10 M MIN_PROFILE (spec_rotated cv i))) [0..<12]"
  let ?a = "map (\<lambda>i. (key_names ! i, ?majs ! i)) [0..<12]"
  let ?b = "map (\<lambda>i. (key_names ! (i + 12), ?mins ! i)) [0..<12]"
  have ab: "?a @ ?b = zip key_names (corrs_on M cv)"
    by (simp add: key_names_explicit corrs_on_def upt_rec numeral_nat)
  have "map fst (?a @ ?b) = key_names"
    unfolding ab by (simp add: corrs_on_length key_names_length)
  then have d: "distinct (map fst (?a @ ?b))" using key_names_distinct by simp
  then have "distinct (map fst ([] @ ?a))" by simp
  then have a: "dict_update [] ?a = ?a" using dict_update_distinct[of "[]" ?a] by simp
  have "dict_update ?a ?b = ?a @ ?b" using d by (rule dict_update_distinct)
  with a ab show ?thesis
    by (simp add: compute_key_correlations_on_def corr_loop_on_keyfreqs)
qed

lemma alt_loop_on_frame:
  "key (alt_loop_on M items s) = key s \<and> bestcorr (alt_loop_on M items s) = bestcorr s \<and>
   key_dict (alt_loop_on M items s) = key_dict s \<and> keyfreqs (alt_loop_on M items s) = keyfreqs s \<and>
   chroma_vals (alt_loop_on M items s) = chroma_vals s"
  by (induction items) auto

lemma alt_loop_on_NaN: "\<forall>x\<in>set items. snd x = NaN \<Longrightarrow> alt_loop_on M items s = s"
  by (induction items) auto

lemma key_zip_nth:
  "length vs = 24 \<Longrightarrow> j < 24 \<Longrightarrow> zip key_names vs ! j = (key_names ! j, vs ! j)"
  by (simp add: key_names_length)

lemma key_zip_get:
  "length vs = 24 \<Longrightarrow> j < 24 \<Longrightarrow> dict_get (zip key_names vs) (key_names ! j) = Some (vs ! j)"
  unfolding dict_get_def
  by (rule map_of_zip_nth) (simp_all add: key_names_length key_names_distinct)

text \<open>The object that \<open>__init__\<close> leaves behind on a machine, with the index of the primary
  key.\<close>

lemma init_on_result:
  assumes "length cv = 12"
  shows "\<exists>s i. init_on M cv = Inr s \<and> i < 24 \<and>
           key_dict s = zip key_names (corrs_on M cv) \<and>
           key s = key_names ! i \<and> bestcorr s = corrs_on M cv ! i \<and>
           (i = 0 \<or> py_gt (corrs_on M cv ! i) (corrs_on M cv ! 0)) \<and>
           s = alt_loop_on M (zip key_names (corrs_on M cv))
                 \<lparr>chroma_vals = cv, keyfreqs = keyfreqs_of cv,
                  key_dict = zip key_names (corrs_on M cv), key = key_names ! i,
                  bestcorr = corrs_on M cv ! i, altkey = None, altbestcorr = None\<rparr>"
proof -
  define vs where "vs = corrs_on M cv"
  define kd where "kd = zip key_names vs"
  have len: "length vs = 24" by (simp add: vs_def corrs_on_length)
  have keys: "dict_keys kd = key_names"
    by (simp add: kd_def dict_keys_def key_names_length len)
  have "\<exists>i<length vs. py_max key_names (dict_get kd) = Inr (key_names ! i) \<and>
           (i = 0 \<or> py_gt (vs ! i) (vs ! 0)) \<and>
           (\<forall>j<length vs. \<not> py_gt (vs ! j) (vs ! i)) \<and>
           (\<forall>j<i. \<not> py_ge (vs ! j) (vs ! i))"
  proof (rule py_max_index)
    show "key_names \<noteq> []" using key_names_length by auto
    show "length key_names = length vs" by (simp add: key_names_length len)
    show "\<forall>j<length key_names. dict_get kd (key_names ! j) = Some (vs ! j)"
      unfolding kd_def using key_zip_get[OF len] by (simp add: key_names_length)
  qed
  then obtain i where i: "i < 24" "py_max key_names (dict_get kd) = Inr (key_names ! i)"
    "i = 0 \<or> py_gt (vs ! i) (vs ! 0)"
    using len by auto
  have item: "dict_item kd (key_names ! i) = Inr (vs ! i)"
    using key_zip_get[OF len i(1)] by (simp add: dict_item_def dict_get_def kd_def)
  define start where "start = \<lparr>chroma_vals = cv, keyfreqs = keyfreqs_of cv, key_dict = kd,
      key = key_names ! i, bestcorr = vs ! i, altkey = None, altbestcorr = None\<rparr>"
  have init: "init_on M cv = Inr (alt_loop_on M kd start)"
    using assms i(2) item keys
    by (simp add: init_on_def Let_def compute_key_correlations_on_keyfreqs
          find_alternative_key_on_def start_def kd_def vs_def)
  have fr: "key_dict (alt_loop_on M kd start) = kd" "key (alt_loop_on M kd start) = key_names ! i"
    "bestcorr (alt_loop_on M kd start) = vs ! i"
    using alt_loop_on_frame[of M kd start] by (simp_all add: start_def)
  show ?thesis
    apply (rule exI[of _ "alt_loop_on M kd start"], rule exI[of _ i])
    using init i(1,3) fr unfolding kd_def vs_def start_def by simp
qed

lemma init_on_key_shape:
  assumes "length cv = 12" "init_on M cv = Inr s"
  shows "key_dict s = zip key_names (corrs_on M cv)"
    and "\<exists>i<24. key s = key_names ! i \<and> bestcorr s = corrs_on M cv ! i"
proof -
  from init_on_result[OF assms(1), of M] obtain s' i where s': "init_on M cv = Inr s'" "i < 24"
    "key_dict s' = zip key_names (corrs_on M cv)" "key s' = key_names ! i"
    "bestcorr s' = corrs_on M cv ! i"
    by blast
  from s'(1) assms(2) have e: "s' = s" by simp
  show "key_dict s = zip key_names (corrs_on M cv)" using s'(3) e by simp
  show "\<exists>i<24. key s = key_names ! i \<and> bestcorr s = corrs_on M cv ! i"
    using s'(2,4,5) e by blast
qed

lemma get_key_with_context_on_major:
  assumes "r < 12" "key s = PITCHES ! r @ '' major''"
    and "key_dict s = zip key_names vs" "length vs = 24"
  shows "get_key_with_context_on M s True threshold =
           (if py_gt (vs ! (12 + nat ((int r - 3) mod 12))) (m_mul M (bestcorr s) threshold)
            then Inr ((PITCHES ! nat ((int r - 3) mod 12) @ '' minor'',
                       vs ! (12 + nat ((int r - 3) mod 12))), s)
            else Inr ((key s, bestcorr s), s))"
proof -
  let ?m = "nat ((int r - 3) mod 12)"
  have m: "?m < 12" by simp
  have name: "key_names ! (12 + ?m) = PITCHES ! ?m @ '' minor''"
    using major_key_parts m by blast
  have "map_of (zip key_names vs) (key_names ! (12 + ?m)) = Some (vs ! (12 + ?m))"
    by (rule map_of_zip_nth) (use m assms(4) in \<open>simp_all add: key_names_length key_names_distinct\<close>)
  then have look: "map_of (key_dict s) (PITCHES ! ?m @ '' minor'') = Some (vs ! (12 + ?m))"
    using name assms(3) by simp
  have parts: "str_contains ''major'' (key s)" "py_split (key s) = [PITCHES ! r, ''major'']"
    "list_index PITCHES (PITCHES ! r) = Inr r"
    using major_key_parts assms(1,2) by simp_all
  show ?thesis
    unfolding get_key_with_context_on_def
    using parts look by (simp add: Let_def dict_contains_def dict_item_def)
qed

section \<open>Undefined correlations\<close>

lemma get_key_with_context_on_plain:
  "\<not> (prefer_minor \<and> str_contains ''major'' (key s)) \<Longrightarrow>
   get_key_with_context_on M s prefer_minor threshold = Inr ((key s, bestcorr s), s)"
  unfolding get_key_with_context_on_def by (cases prefer_minor) auto

lemma corrs_on_all_NaN:
  assumes "\<forall>r<12. m_round3 M (m_corrcoef_10 M MAJ_PROFILE (spec_rotated cv r)) = NaN \<and>
                  m_round3 M (m_corrcoef_10 M MIN_PROFILE (spec_rotated cv r)) = NaN"
  shows "corrs_on M cv = replicate 24 NaN"
proof -
  have "map (\<lambda>i. m_round3 M (m_corrcoef_10 M MAJ_PROFILE (spec_rotated cv i))) [0..<12]
          = map (\<lambda>i. NaN) [0..<12]"
    using assms by (intro map_cong[OF refl]) simp
  moreover have "map (\<lambda>i. m_round3 M (m_corrcoef_10 M MIN_PROFILE (spec_rotated cv i))) [0..<12]
          = map (\<lambda>i. NaN) [0..<12]"
    using assms by (intro map_cong[OF refl]) simp
  ultimately have "corrs_on M cv = replicate 12 NaN @ replicate 12 NaN"
    by (simp add: corrs_on_def map_replicate_const)
  then show ?thesis by (simp add: replicate_add[symmetric])
qed

lemma init_on_all_NaN:
  assumes "length cv = 12" and "corrs_on M cv = replicate 24 NaN"
  shows "\<exists>s. init_on M cv = Inr s \<and> map snd (key_dict s) = replicate 24 NaN \<and>
             map fst (key_dict s) = key_names \<and>
             key s = ''C major'' \<and> bestcorr s = NaN \<and> altkey s = None \<and> altbestcorr s = None \<and>
             get_key_with_context_on M s prefer_minor threshold = Inr ((''C major'', NaN), s)"
proof -
  note cs = assms(2)
  define kd where "kd = zip key_names (replicate 24 NaN)"
  from init_on_result[OF assms(1), of M] obtain s i where s: "init_on M cv = Inr s" "i < 24"
    "key_dict s = zip key_names (corrs_on M cv)" "key s = key_names ! i"
    "bestcorr s = corrs_on M cv ! i"
    "i = 0 \<or> py_gt (corrs_on M cv ! i) (corrs_on M cv ! 0)"
    "s = alt_loop_on M (zip key_names (corrs_on M cv))
           \<lparr>chroma_vals = cv, keyfreqs = keyfreqs_of cv,
            key_dict = zip key_names (corrs_on M cv), key = key_names ! i,
            bestcorr = corrs_on M cv ! i, altkey = None, altbestcorr = None\<rparr>"
    by blast
  from s(2,6) have i0: "i = 0" by (simp add: cs)
  have k: "key s = ''C major''" using s(4) i0 by (simp add: key_names_explicit)
  have b: "bestcorr s = NaN" using s(5) s(2) by (simp add: cs)
  have kds: "key_dict s = kd" using s(3) by (simp add: cs kd_def)
  have allnan: "\<forall>x\<in>set kd. snd x = NaN"
    unfolding kd_def by (auto dest!: set_zip_rightD)
  have e: "s = \<lparr>chroma_vals = cv, keyfreqs = keyfreqs_of cv, key_dict = kd, key = key_names ! i,
            bestcorr = corrs_on M cv ! i, altkey = None, altbestcorr = None\<rparr>"
    using s(7) alt_loop_on_NaN[OF allnan] by (simp add: cs kd_def)
  have alt: "altkey s = None" "altbestcorr s = None" by (subst e, simp)+
  have vals: "map snd (key_dict s) = replicate 24 NaN" "map fst (key_dict s) = key_names"
    unfolding kds kd_def by (simp_all add: key_names_length)
  have major: "key s = PITCHES ! 0 @ '' major''" unfolding k by (simp add: PITCHES_def)
  have g: "get_key_with_context_on M s prefer_minor threshold = Inr ((''C major'', NaN), s)"
  proof (cases prefer_minor)
    case True
    have "get_key_with_context_on M s True threshold =
           (if py_gt (replicate 24 NaN ! (12 + nat ((int 0 - 3) mod 12))) (m_mul M (bestcorr s) threshold)
            then Inr ((PITCHES ! nat ((int 0 - 3) mod 12) @ '' minor'',
                       replicate 24 NaN ! (12 + nat ((int 0 - 3) mod 12))), s)
            else Inr ((key s, bestcorr s), s))"
      using major kds unfolding kd_def by (intro get_key_with_context_on_major) simp_all
    then show ?thesis using True k b by simp
  next
    case False
    then show ?thesis using k b by (simp add: get_key_with_context_on_plain)
  qed
  from s(1) vals k b alt g show ?thesis by blast
qed

lemma corrs_on_exact_ones: "corrs_on exact (replicate 12 1) = replicate 24 NaN"
  unfolding corrs_on_exact by (rule corrs_of_const[of _ 1]) simp

lemma corrs_on_exact_zero: "corrs_on exact chroma_zero = replicate 24 NaN"
  unfolding corrs_on_exact by (rule corrs_of_const[of _ 0]) (simp add: chroma_zero_def all_less_12 upt_12)

text \<open>
  Claim C1 (as amended). For every chroma vector of twelve energies for which all 24
  correlation computations of lines 86 and 87 give NaN, on whatever machine (as they do for
  the all-zero vector, whose variance is zero), the NaN coefficients are stored as they are,
  a value distinct from every number and not coerced to 0. The classifier raises no error
  and has no result for an undefined key: the primary key is the first candidate of the
  enumeration, \<open>C major\<close>, with correlation NaN, there is no alternate, and
  \<open>get_key_with_context\<close> returns \<open>C major\<close> with NaN for every argument.
\<close>

theorem undefined_correlations_report_first_candidate:
  assumes "length cv = 12"
    and "\<forall>r<12. m_round3 M (m_corrcoef_10 M MAJ_PROFILE (spec_rotated cv r)) = NaN \<and>
                 m_round3 M (m_corrcoef_10 M MIN_PROFILE (spec_rotated cv r)) = NaN"
  shows "\<exists>s. init_on M cv = Inr s \<and> map snd (key_dict s) = replicate 24 NaN \<and>
             map fst (key_dict s) = key_names \<and>
             key s = ''C major'' \<and> bestcorr s = NaN \<and> altkey s = None \<and> altbestcorr s = None \<and>
             get_key_with_context_on M s prefer_minor threshold = Inr ((''C major'', NaN), s)"
  using assms(1) corrs_on_all_NaN[OF assms(2)] by (rule init_on_all_NaN)

theorem undefined_correlations_report_first_candidate_witness:
  "length (replicate 12 (1::real)) = 12 \<and> corrs_on exact (replicate 12 1) = replicate 24 NaN \<and>
   (\<exists>s. init_on exact (replicate 12 1) = Inr s \<and> map snd (key_dict s) = replicate 24 NaN \<and>
        map fst (key_dict s) = key_names \<and>
        key s = ''C major'' \<and> bestcorr s = NaN \<and> altkey s = None \<and> altbestcorr s = None \<and>
        get_key_with_context_on exact s True (Fin 0.9) = Inr ((''C major'', NaN), s))"
proof -
  have l: "length (replicate 12 (1::real)) = 12" by simp
  have n: "\<forall>r<12. m_round3 exact (m_corrcoef_10 exact MAJ_PROFILE (spec_rotated (replicate 12 1) r)) = NaN \<and>
                 m_round3 exact (m_corrcoef_10 exact MIN_PROFILE (spec_rotated (replicate 12 1) r)) = NaN"
  proof (intro allI impI)
    fix r :: nat assume "r < 12"
    have "spec_rotated (replicate 12 1) r = replicate 12 1"
      by (rule spec_rotated_const) simp
    then show "m_round3 exact (m_corrcoef_10 exact MAJ_PROFILE (spec_rotated (replicate 12 1) r)) = NaN \<and>
                 m_round3 exact (m_corrcoef_10 exact MIN_PROFILE (spec_rotated (replicate 12 1) r)) = NaN"
      by (simp add: exact_ops corrcoef_10_replicate)
  qed
  from undefined_correlations_report_first_candidate[OF l n, of True "Fin 0.9"]
    corrs_on_exact_ones l
  show ?thesis by blast
qed

text \<open>
  Claim C1 as stated fails on the all-zero chroma vector: no error is raised, and the object
  and \<open>get_key_with_context\<close> carry the key label \<open>C major\<close> beside the correlation NaN.
\<close>

theorem undefined_key_counterexample:
  "\<not> isl (init chroma_zero) \<and>
   key (projr (init chroma_zero)) = ''C major'' \<and>
   bestcorr (projr (init chroma_zero)) = NaN \<and>
   get_key_with_context (projr (init chroma_zero)) True (Fin 0.9)
     = Inr ((''C major'', NaN), projr (init chroma_zero))"
proof -
  have l: "length chroma_zero = 12" by (simp add: chroma_zero_def)
  from init_on_all_NaN[OF l corrs_on_exact_zero, of True "Fin 0.9"]
  obtain s where s: "init chroma_zero = Inr s" "key s = ''C major''" "bestcorr s = NaN"
    "get_key_with_context s True (Fin 0.9) = Inr ((''C major'', NaN), s)"
    unfolding init_on_exact get_key_with_context_on_exact by blast
  then show ?thesis by simp
qed

section \<open>What the machine decides\<close>

lemma relative_minor_report_on:
  assumes "length cv = 12" "init_on M cv = Inr s" "r < 12" "key s = PITCHES ! r @ '' major''"
  shows "\<exists>minor_corr.
           dict_get (key_dict s) (PITCHES ! nat ((int r - 3) mod 12) @ '' minor'') = Some minor_corr \<and>
           get_key_with_context_on M s True threshold =
             Inr (if py_gt minor_corr (m_mul M (bestcorr s) threshold)
                  then (PITCHES ! nat ((int r - 3) mod 12) @ '' minor'', minor_corr)
                  else (key s, bestcorr s), s)"
proof -
  note shape = init_on_key_shape[OF assms(1,2)]
  let ?m = "nat ((int r - 3) mod 12)"
  let ?mc = "corrs_on M cv ! (12 + ?m)"
  have m: "?m < 12" by simp
  have name: "key_names ! (12 + ?m) = PITCHES ! ?m @ '' minor''"
    using major_key_parts m by blast
  have "dict_get (zip key_names (corrs_on M cv)) (key_names ! (12 + ?m)) = Some ?mc"
    using m by (intro key_zip_get) (simp_all add: corrs_on_length)
  then have look: "dict_get (key_dict s) (PITCHES ! ?m @ '' minor'') = Some ?mc"
    using name shape(1) by simp
  have "get_key_with_context_on M s True threshold =
           (if py_gt ?mc (m_mul M (bestcorr s) threshold)
            then Inr ((PITCHES ! ?m @ '' minor'', ?mc), s)
            else Inr ((key s, bestcorr s), s))"
    using assms(3,4) shape(1) by (intro get_key_with_context_on_major) (simp_all add: corrs_on_length)
  then have "get_key_with_context_on M s True threshold =
             Inr (if py_gt ?mc (m_mul M (bestcorr s) threshold)
                  then (PITCHES ! ?m @ '' minor'', ?mc)
                  else (key s, bestcorr s), s)"
    by simp
  with look show ?thesis by blast
qed

lemma chroma_a_init_on_projr: "init_on exact chroma_a = Inr (projr (init_on exact chroma_a))"
  unfolding init_on_exact by (rule chroma_a_init_projr)

text \<open>
  Claim C4. For every chroma vector of twelve energies whose primary key is the major key
  of root \<open>r\<close>, \<open>get_key_with_context\<close> with \<open>prefer_minor = True\<close> looks up the minor key
  of root \<open>(r - 3) mod 12\<close> and returns that key's name with its correlation exactly when
  that correlation is greater than the product \<open>bestcorr * threshold\<close> as the machine
  computes it, for every threshold the caller passes that is a number or NaN (0.9 is the
  default of the source); otherwise it returns the primary key with its correlation.
\<close>

theorem relative_minor_reported_when_greater:
  assumes "length cv = 12" and "init_on M cv = Inr s"
    and "r < 12" and "key s = PITCHES ! r @ '' major''"
  shows "\<exists>minor_corr.
           dict_get (key_dict s) (PITCHES ! nat ((int r - 3) mod 12) @ '' minor'') = Some minor_corr \<and>
           get_key_with_context_on M s True threshold =
             Inr (if py_gt minor_corr (m_mul M (bestcorr s) threshold)
                  then (PITCHES ! nat ((int r - 3) mod 12) @ '' minor'', minor_corr)
                  else (key s, bestcorr s), s)"
  using assms by (rule relative_minor_report_on)

theorem relative_minor_reported_when_greater_witness:
  "length chroma_a = 12 \<and> init_on exact chroma_a = Inr (projr (init_on exact chroma_a)) \<and>
   (0::nat) < 12 \<and>
   key (projr (init_on exact chroma_a)) = PITCHES ! 0 @ '' major'' \<and>
   PITCHES ! nat ((int 0 - 3) mod 12) @ '' minor'' = ''A minor'' \<and>
   get_key_with_context_on exact (projr (init_on exact chroma_a)) True (Fin 0.9)
     = Inr ((''A minor'', Fin 0.885), projr (init_on exact chroma_a)) \<and>
   get_key_with_context_on exact (projr (init_on exact chroma_a)) True (Fin 1)
     = Inr ((''C major'', Fin 0.911), projr (init_on exact chroma_a))"
proof -
  let ?s = "projr (init_on exact chroma_a)"
  have h: "length chroma_a = 12" by (simp add: chroma_a_def)
  have i: "init chroma_a = Inr ?s" using chroma_a_init_on_projr by (simp only: init_on_exact)
  note o = chroma_a_object[OF i]
  have k: "key ?s = PITCHES ! 0 @ '' major''" unfolding o(2) by (simp add: PITCHES_def)
  have n: "PITCHES ! nat ((int 0 - 3) mod 12) @ '' minor'' = ''A minor''"
    by (simp add: PITCHES_def)
  have look: "dict_get (key_dict ?s) (PITCHES ! nat ((int 0 - 3) mod 12) @ '' minor'') = Some (Fin 0.885)"
    unfolding n o(1) by (rule chroma_a_relative_minor)
  have "get_key_with_context_on exact ?s True (Fin 0.9) = Inr ((''A minor'', Fin 0.885), ?s)"
    using relative_minor_reported_when_greater[OF h chroma_a_init_on_projr _ k, of "Fin 0.9"] look
    unfolding n o(2) o(3) by (auto simp: exact_ops)
  moreover have "get_key_with_context_on exact ?s True (Fin 1) = Inr ((''C major'', Fin 0.911), ?s)"
    using relative_minor_reported_when_greater[OF h chroma_a_init_on_projr _ k, of "Fin 1"] look
    unfolding n o(2) o(3) by (auto simp: exact_ops)
  ultimately show ?thesis using h chroma_a_init_on_projr k n by simp
qed

lemma candidate_entries_on:
  assumes "length cv = 12" "r < 12"
  shows "\<exists>s. init_on M cv = Inr s \<and> map fst (key_dict s) = key_names \<and>
     key_dict s ! r = (PITCHES ! r @ '' major'',
                       m_round3 M (m_corrcoef_10 M MAJ_PROFILE (spec_rotated cv r))) \<and>
     key_dict s ! (12 + r) = (PITCHES ! r @ '' minor'',
                       m_round3 M (m_corrcoef_10 M MIN_PROFILE (spec_rotated cv r)))"
proof -
  from init_on_result[OF assms(1), of M] obtain s where s: "init_on M cv = Inr s"
    "key_dict s = zip key_names (corrs_on M cv)" by blast
  have names: "key_names ! r = PITCHES ! r @ '' major''" "key_names ! (12 + r) = PITCHES ! r @ '' minor''"
    using major_key_parts assms(2) by blast+
  have "key_dict s ! r = (key_names ! r, corrs_on M cv ! r)"
    unfolding s(2) using assms(2) by (intro key_zip_nth) (simp_all add: corrs_on_length)
  then have a: "key_dict s ! r = (PITCHES ! r @ '' major'',
                       m_round3 M (m_corrcoef_10 M MAJ_PROFILE (spec_rotated cv r)))"
    using assms(2) names(1) by (simp add: corrs_on_nth)
  have "key_dict s ! (12 + r) = (key_names ! (12 + r), corrs_on M cv ! (12 + r))"
    unfolding s(2) using assms(2) by (intro key_zip_nth) (simp_all add: corrs_on_length)
  then have b: "key_dict s ! (12 + r) = (PITCHES ! r @ '' minor'',
                       m_round3 M (m_corrcoef_10 M MIN_PROFILE (spec_rotated cv r)))"
    using assms(2) names(2) by (simp add: corrs_on_nth)
  have "map fst (key_dict s) = key_names"
    unfolding s(2) by (simp add: key_names_length corrs_on_length)
  with s(1) a b show ?thesis by blast
qed

text \<open>
  Claim C6. For every chroma vector of twelve energies and every root \<open>r\<close> from 0 to 11,
  on whatever machine, the candidate list made by \<open>__init__\<close> holds at position \<open>r\<close> the major
  key of root \<open>r\<close> and at position \<open>12 + r\<close> the minor key of root \<open>r\<close>, each with the value
  that \<open>np.corrcoef\<close> gives for the rotated vector \<open>rotated[m] = chroma[(r + m) mod 12]\<close>
  against the major and the minor profile, passed through \<open>round(_, 3)\<close>. Computed without
  rounding error, that value of \<open>np.corrcoef\<close> is the Pearson correlation coefficient of the
  rotated vector and the profile (NaN where the rotated vector has no variance), and
  \<open>round(_, 3)\<close> of a number \<open>p\<close> is a multiple of 0.001 at most 0.0005 away from \<open>p\<close>.
\<close>

theorem entries_are_rounded_correlations:
  assumes "length cv = 12" and "r < 12"
  shows "\<exists>s. init_on M cv = Inr s \<and> map fst (key_dict s) = key_names \<and>
     spec_rotated cv r = map (\<lambda>m. cv ! ((r + m) mod 12)) [0..<12] \<and>
     key_dict s ! r = (PITCHES ! r @ '' major'',
                       m_round3 M (m_corrcoef_10 M MAJ_PROFILE (spec_rotated cv r))) \<and>
     key_dict s ! (12 + r) = (PITCHES ! r @ '' minor'',
                       m_round3 M (m_corrcoef_10 M MIN_PROFILE (spec_rotated cv r))) \<and>
     m_corrcoef_10 exact MAJ_PROFILE (spec_rotated cv r)
       = spec_pearson (spec_rotated cv r) MAJ_PROFILE \<and>
     m_corrcoef_10 exact MIN_PROFILE (spec_rotated cv r)
       = spec_pearson (spec_rotated cv r) MIN_PROFILE \<and>
     (\<forall>p. \<exists>k::int. m_round3 exact (Fin p) = Fin (of_int k / 1000) \<and>
                      \<bar>of_int k / 1000 - p\<bar> \<le> 1 / 2000)"
proof -
  have maj: "m_corrcoef_10 exact MAJ_PROFILE (spec_rotated cv r)
               = spec_pearson (spec_rotated cv r) MAJ_PROFILE"
    unfolding exact_ops
    by (rule corrcoef_10_pearson) (simp_all add: profile_length spec_rotated_length)
  have min: "m_corrcoef_10 exact MIN_PROFILE (spec_rotated cv r)
               = spec_pearson (spec_rotated cv r) MIN_PROFILE"
    unfolding exact_ops
    by (rule corrcoef_10_pearson) (simp_all add: profile_length spec_rotated_length)
  have rnd: "\<forall>p. \<exists>k::int. m_round3 exact (Fin p) = Fin (of_int k / 1000) \<and>
                      \<bar>of_int k / 1000 - p\<bar> \<le> 1 / 2000"
    unfolding exact_ops using py_round3_nearest by blast
  have rot: "spec_rotated cv r = map (\<lambda>m. cv ! ((r + m) mod 12)) [0..<12]"
    by (simp add: spec_rotated_def)
  from candidate_entries_on[OF assms, of M] obtain s where s: "init_on M cv = Inr s"
    "map fst (key_dict s) = key_names"
    "key_dict s ! r = (PITCHES ! r @ '' major'',
                       m_round3 M (m_corrcoef_10 M MAJ_PROFILE (spec_rotated cv r)))"
    "key_dict s ! (12 + r) = (PITCHES ! r @ '' minor'',
                       m_round3 M (m_corrcoef_10 M MIN_PROFILE (spec_rotated cv r)))"
    by blast
  show ?thesis
    apply (rule exI[of _ s])
    apply (intro conjI)
           apply (rule s(1))
          apply (rule s(2))
         apply (rule rot)
        apply (rule s(3))
       apply (rule s(4))
      apply (rule maj)
     apply (rule min)
    apply (rule rnd)
    done
qed

theorem entries_are_rounded_correlations_witness:
  "length chroma_a = 12 \<and> (9::nat) < 12 \<and>
   (\<exists>s. init_on exact chroma_a = Inr s \<and>
      PITCHES ! 9 @ '' minor'' = ''A minor'' \<and>
      spec_rotated chroma_a 9 = [4, 0, 1, 5, 0, 2, 0, 3, 2, 0, 3, 0] \<and>
      key_dict s ! (12 + 9) = (''A minor'', Fin 0.885) \<and>
      m_round3 exact (spec_pearson (spec_rotated chroma_a 9) MIN_PROFILE) = Fin 0.885 \<and>
      key_dict s ! 9 = (''A major'', Fin 0.244) \<and>
      m_round3 exact (spec_pearson (spec_rotated chroma_a 9) MAJ_PROFILE) = Fin 0.244)"
proof -
  have h: "length chroma_a = 12" "(9::nat) < 12" by (simp_all add: chroma_a_def)
  from entries_are_rounded_correlations[OF h, of exact] obtain s
    where s: "init_on exact chroma_a = Inr s"
    and e: "key_dict s ! 9 = (PITCHES ! 9 @ '' major'',
                       m_round3 exact (m_corrcoef_10 exact MAJ_PROFILE (spec_rotated chroma_a 9)))"
       "key_dict s ! (12 + 9) = (PITCHES ! 9 @ '' minor'',
                       m_round3 exact (m_corrcoef_10 exact MIN_PROFILE (spec_rotated chroma_a 9)))"
    and p: "m_corrcoef_10 exact MAJ_PROFILE (spec_rotated chroma_a 9)
              = spec_pearson (spec_rotated chroma_a 9) MAJ_PROFILE"
       "m_corrcoef_10 exact MIN_PROFILE (spec_rotated chroma_a 9)
              = spec_pearson (spec_rotated chroma_a 9) MIN_PROFILE"
    by blast
  have names: "PITCHES ! 9 @ '' minor'' = ''A minor''" "PITCHES ! 9 @ '' major'' = ''A major''"
    by (simp_all add: PITCHES_def)
  have v: "m_round3 exact (m_corrcoef_10 exact MIN_PROFILE (spec_rotated chroma_a 9)) = Fin 0.885"
    "m_round3 exact (m_corrcoef_10 exact MAJ_PROFILE (spec_rotated chroma_a 9)) = Fin 0.244"
    using chroma_a_min(10) chroma_a_maj(10)
    by (simp_all add: exact_ops min_corr_at_def maj_corr_at_def)
  have e': "key_dict s ! 9 = (''A major'', Fin 0.244)"
    "key_dict s ! (12 + 9) = (''A minor'', Fin 0.885)"
    using e names v by simp_all
  have v': "m_round3 exact (spec_pearson (spec_rotated chroma_a 9) MIN_PROFILE) = Fin 0.885"
    "m_round3 exact (spec_pearson (spec_rotated chroma_a 9) MAJ_PROFILE) = Fin 0.244"
    using v p by simp_all
  show ?thesis
    apply (intro conjI)
      apply (rule h(1))
     apply (rule h(2))
    apply (rule exI[of _ s])
    apply (intro conjI)
          apply (rule s)
         apply (rule names(1))
        apply (rule chroma_a_rotated(10))
       apply (rule e'(2))
      apply (rule v'(1))
     apply (rule e'(1))
    apply (rule v'(2))
    done
qed

end
